theory Spec2Isabelle
  imports Complex_Main "HOL-Library.Monad_Syntax"
begin

section \<open>Geometry of the graphics library\<close>

text \<open>
  The game (\<^verbatim>\<open>src/main.cpp\<close>) is written against the Qt graphics classes.  The
  coordinates are \<^verbatim>\<open>qreal\<close> values; they are modelled by the real numbers, so
  rounding of floating point arithmetic is not part of the model.

  The counters \<^verbatim>\<open>verticalVelocity\<close>, \<^verbatim>\<open>deaths\<close> and \<^verbatim>\<open>level\<close> are C++ \<^verbatim>\<open>int\<close>s of 32
  bits.  They are modelled by integers, and where the program counts past the end of
  the range the model wraps around as the compiled program does: \<^verbatim>\<open>verticalVelocity -= 1\<close>
  at the least value gives the greatest one, \<^verbatim>\<open>level++\<close> at the greatest value the least
  one.  (\<^verbatim>\<open>deaths++\<close> is only reached with less than 10 deaths and cannot leave the
  range.)
\<close>

definition wrap32 :: "int \<Rightarrow> int" where
  "wrap32 i = (i + 2147483648) mod 4294967296 - 2147483648"

record QPointF =
  xp :: real
  yp :: real

text \<open>A rectangle is stored as Qt stores it: corner, width and height.\<close>

record QRectF =
  rect_x :: real
  rect_y :: real
  rect_w :: real
  rect_h :: real

definition rect_left :: "QRectF \<Rightarrow> real" where
  "rect_left r = rect_x r"

definition rect_top :: "QRectF \<Rightarrow> real" where
  "rect_top r = rect_y r"

definition rect_right :: "QRectF \<Rightarrow> real" where
  "rect_right r = rect_x r + rect_w r"

definition rect_bottom :: "QRectF \<Rightarrow> real" where
  "rect_bottom r = rect_y r + rect_h r"

text \<open>\<^verbatim>\<open>QRectF(const QPointF &topLeft, const QSizeF &size)\<close>\<close>

definition rectAt :: "QPointF \<Rightarrow> real \<Rightarrow> real \<Rightarrow> QRectF" where
  "rectAt p w h = \<lparr>rect_x = xp p, rect_y = yp p, rect_w = w, rect_h = h\<rparr>"

text \<open>
  \<^verbatim>\<open>QRectF::intersects\<close>: both rectangles are normalised, an empty one intersects
  nothing, and two rectangles that only touch along an edge do not intersect.
\<close>

definition intersects :: "QRectF \<Rightarrow> QRectF \<Rightarrow> bool" where
  "intersects a b =
     (let l1 = (if rect_w a < 0 then rect_x a + rect_w a else rect_x a);
          r1 = (if rect_w a < 0 then rect_x a else rect_x a + rect_w a);
          l2 = (if rect_w b < 0 then rect_x b + rect_w b else rect_x b);
          r2 = (if rect_w b < 0 then rect_x b else rect_x b + rect_w b);
          t1 = (if rect_h a < 0 then rect_y a + rect_h a else rect_y a);
          b1 = (if rect_h a < 0 then rect_y a else rect_y a + rect_h a);
          t2 = (if rect_h b < 0 then rect_y b + rect_h b else rect_y b);
          b2 = (if rect_h b < 0 then rect_y b else rect_y b + rect_h b)
      in if l1 = r1 then False
         else if l2 = r2 then False
         else if l1 \<ge> r2 \<or> l2 \<ge> r1 then False
         else if t1 = b1 then False
         else if t2 = b2 then False
         else if t1 \<ge> b2 \<or> t2 \<ge> b1 then False
         else True)"

text \<open>\<^verbatim>\<open>QLineF(p, q).length()\<close>\<close>

definition lineLength :: "QPointF \<Rightarrow> QPointF \<Rightarrow> real" where
  "lineLength p q = sqrt ((xp q - xp p)\<^sup>2 + (yp q - yp p)\<^sup>2)"

text \<open>\<^verbatim>\<open>QPointF::isNull\<close>: both coordinates are zero.\<close>

definition isNull :: "QPointF \<Rightarrow> bool" where
  "isNull p \<longleftrightarrow> xp p = 0 \<and> yp p = 0"

text \<open>\<^verbatim>\<open>qBound(min, val, max)\<close> is \<^verbatim>\<open>qMax(min, qMin(max, val))\<close>.\<close>

definition qBound :: "real \<Rightarrow> real \<Rightarrow> real \<Rightarrow> real" where
  "qBound lo val hi = max lo (min hi val)"

text \<open>
  What the library decides and the game only calls is a parameter of the model:
  \<^item> \<open>halfPen\<close>, half the width of the default pen.  \<^verbatim>\<open>QGraphicsRectItem::boundingRect\<close>
    is the item's rectangle grown by it on every side when it is positive;
  \<^item> \<open>collidesEllipse\<close>, the answer of \<^verbatim>\<open>player->collidesWithItem(winCircle)\<close> for the
    player at a position and the goal's rectangle;
  \<^item> \<open>collidesPolygon\<close>, the answer of \<^verbatim>\<open>player->collidesWithItem(tri)\<close> for the
    player at a position and the points of a spike.
\<close>

record QtEnv =
  halfPen :: real
  collidesEllipse :: "QPointF \<Rightarrow> QRectF \<Rightarrow> bool"
  collidesPolygon :: "QPointF \<Rightarrow> QPointF list \<Rightarrow> bool"

definition boundingRect :: "QtEnv \<Rightarrow> QRectF \<Rightarrow> QRectF" where
  "boundingRect env r =
     (if halfPen env > 0
      then \<lparr>rect_x = rect_x r - halfPen env, rect_y = rect_y r - halfPen env,
            rect_w = rect_w r + 2 * halfPen env, rect_h = rect_h r + 2 * halfPen env\<rparr>
      else r)"

text \<open>\<^verbatim>\<open>Player() { setRect(0, 0, 20, 20); }\<close>\<close>

definition playerItemRect :: QRectF where
  "playerItemRect = \<lparr>rect_x = 0, rect_y = 0, rect_w = 20, rect_h = 20\<rparr>"

section \<open>The random generator\<close>

text \<open>
  \<^verbatim>\<open>QRandomGenerator::global()\<close> is modelled by the list of its coming raw draws, each a
  number \<open>u\<close> of the unit interval.  \<^verbatim>\<open>bounded(double highest)\<close> is the library's
  \<open>u * highest\<close>, and \<^verbatim>\<open>bounded(int lowest, int highest)\<close> is
  \<open>lowest + \<lfloor>u * (highest - lowest)\<rfloor>\<close>.  A rejection loop takes its draws from the
  front of the list; a loop that has not accepted a sample when the list is used up
  has no result (\<open>None\<close>).
\<close>

definition boundedReal :: "real \<Rightarrow> real \<Rightarrow> real" where
  "boundedReal highest u = u * highest"

definition boundedInt :: "int \<Rightarrow> int \<Rightarrow> real \<Rightarrow> int" where
  "boundedInt lowest highest u = lowest + \<lfloor>u * real_of_int (highest - lowest)\<rfloor>"

definition unitDraws :: "real list \<Rightarrow> bool" where
  "unitDraws us \<longleftrightarrow> list_all (\<lambda>u. 0 \<le> u \<and> u < 1) us"

section \<open>The game state\<close>

text \<open>\<^verbatim>\<open>Qt::Key_A\<close>, \<^verbatim>\<open>Qt::Key_D\<close>, \<^verbatim>\<open>Qt::Key_W\<close>\<close>

definition Key_A :: int where "Key_A = 0x41"
definition Key_D :: int where "Key_D = 0x44"
definition Key_W :: int where "Key_W = 0x57"

text \<open>
  The members of \<^verbatim>\<open>GameView\<close>.  \<open>player\<close> is \<^verbatim>\<open>player->pos()\<close>; an item of the scene is
  represented by its geometry (a platform and the goal by the rectangle they were
  constructed with, a spike by its points), a text item by its text.  \<open>sceneRect\<close> is
  \<^verbatim>\<open>scene()->sceneRect()\<close>, and \<open>rng\<close> the global random generator.
\<close>

record GameView =
  player :: QPointF
  winCircle :: "QRectF option"
  redTriangles :: "QPointF list list"
  platforms :: "QRectF list"
  keysPressed :: "int set"
  verticalVelocity :: int
  deaths :: int
  level :: int
  livesText :: string
  levelsText :: string
  lastSpawnPos :: QPointF
  gameOverText :: "string option"
  sceneRect :: QRectF
  rng :: "real list"

section \<open>The heads-up display\<close>

text \<open>\<^verbatim>\<open>QString::arg(int)\<close> writes the number in decimal.\<close>

fun decimal :: "nat \<Rightarrow> string" where
  "decimal n =
     (if n < 10 then [''0123456789'' ! n]
      else decimal (n div 10) @ [''0123456789'' ! (n mod 10)])"

definition number :: "int \<Rightarrow> string" where
  "number i = (if i < 0 then ''-'' @ decimal (nat (- i)) else decimal (nat i))"

definition updateHUD :: "GameView \<Rightarrow> GameView" where
  "updateHUD s =
     s\<lparr>livesText := ''Lives left: '' @ number (10 - deaths s),
       levelsText := ''Levels won: '' @ number (level s)\<rparr>"

definition showGameOver :: "GameView \<Rightarrow> GameView" where
  "showGameOver s =
     s\<lparr>gameOverText :=
         Some (''Game Over!'' @ [CHR 0x0A] @ ''You passed '' @ number (level s) @ '' levels.'')\<rparr>"

section \<open>Level generation\<close>

text \<open>
  The goal is resampled until it is at least 150 away from the spawn point:
  \<^verbatim>\<open>do { winPos = ... } while (QLineF(spawnPos, winPos).length() < 150);\<close>
  Each sample takes two draws.  C++ does not fix which of the two arguments of the
  constructor is evaluated first; the model gives the first draw to the horizontal
  coordinate.
\<close>

fun sampleWinPos :: "QRectF \<Rightarrow> QPointF \<Rightarrow> real list \<Rightarrow> (QPointF \<times> real list) option" where
  "sampleWinPos sceneBounds spawnPos (u1 # u2 # us) =
     (let winPos = \<lparr>xp = boundedReal (rect_w sceneBounds) u1,
                     yp = boundedReal (rect_h sceneBounds / 2) u2\<rparr>
      in if lineLength spawnPos winPos < 150 then sampleWinPos sceneBounds spawnPos us
         else Some (winPos, us))"
| "sampleWinPos sceneBounds spawnPos us = None"

text \<open>
  The left edge of a path platform of height \<open>y\<close>:
  \<^verbatim>\<open>do { x = ... } while (qAbs(x - spawnPos.x()) < 100 && qAbs(y - spawnPos.y()) < 80);\<close>
\<close>

fun samplePlatformX :: "QRectF \<Rightarrow> QPointF \<Rightarrow> real \<Rightarrow> real list \<Rightarrow> (real \<times> real list) option" where
  "samplePlatformX sceneBounds spawnPos y (u # us) =
     (let x = boundedReal (rect_w sceneBounds - 80) u
      in if \<bar>x - xp spawnPos\<bar> < 100 \<and> \<bar>y - yp spawnPos\<bar> < 80
         then samplePlatformX sceneBounds spawnPos y us
         else Some (x, us))"
| "samplePlatformX sceneBounds spawnPos y [] = None"

text \<open>One draw of an integer, \<^verbatim>\<open>QRandomGenerator::global()->bounded(lowest, highest)\<close>.\<close>

fun drawInt :: "int \<Rightarrow> int \<Rightarrow> real list \<Rightarrow> (int \<times> real list) option" where
  "drawInt lowest highest (u # us) = Some (boundedInt lowest highest u, us)"
| "drawInt lowest highest [] = None"

definition numPlatforms :: int where
  "numPlatforms = 14"

text \<open>
  The body of the loop over the path platforms: the platform of band \<open>i\<close>, and with
  a chance of 40 in 100 a spike on it.
\<close>

definition pathPlatform :: "QRectF \<Rightarrow> QPointF \<Rightarrow> real \<Rightarrow> int \<Rightarrow> GameView \<Rightarrow> GameView option" where
  "pathPlatform sceneBounds spawnPos stepY i s =
     (let y = yp spawnPos - real_of_int i * stepY in
      do {
        (x, r1) \<leftarrow> samplePlatformX sceneBounds spawnPos y (rng s);
        let platform = \<lparr>rect_x = x, rect_y = y, rect_w = 80, rect_h = 10\<rparr>;
        let s1 = s\<lparr>platforms := platforms s @ [platform]\<rparr>;
        (chance, r2) \<leftarrow> drawInt 0 100 r1;
        if chance < 40 then
          do {
            (spikeOffset, r3) \<leftarrow> drawInt 10 70 r2;
            let triangle = [\<lparr>xp = x + real_of_int spikeOffset + 10, yp = y - 10\<rparr>,
                            \<lparr>xp = x + real_of_int spikeOffset, yp = y\<rparr>,
                            \<lparr>xp = x + real_of_int spikeOffset + 20, yp = y\<rparr>];
            Some (s1\<lparr>redTriangles := redTriangles s1 @ [triangle], rng := r3\<rparr>)
          }
        else Some (s1\<lparr>rng := r2\<rparr>)
      })"

text \<open>\<^verbatim>\<open>for (int i = 0; i < numPlatforms; ++i) { ... }\<close>\<close>

function pathPlatforms :: "QRectF \<Rightarrow> QPointF \<Rightarrow> real \<Rightarrow> int \<Rightarrow> GameView \<Rightarrow> GameView option" where
  "pathPlatforms sceneBounds spawnPos stepY i s =
     (if i < numPlatforms
      then do {
             s' \<leftarrow> pathPlatform sceneBounds spawnPos stepY i s;
             pathPlatforms sceneBounds spawnPos stepY (i + 1) s'
           }
      else Some s)"
  by pat_completeness auto
termination
  by (relation "measure (\<lambda>(sceneBounds, spawnPos, stepY, i, s). nat (numPlatforms - i))") auto

declare pathPlatforms.simps [simp del]

text \<open>The body of the loop over the platforms near the goal.\<close>

definition safePlatform :: "QRectF \<Rightarrow> QPointF \<Rightarrow> GameView \<Rightarrow> GameView option" where
  "safePlatform sceneBounds winPos s =
     do {
       (dx, r1) \<leftarrow> drawInt (- 60) 60 (rng s);
       (dy, r2) \<leftarrow> drawInt 0 40 r1;
       let px = qBound 0 (xp winPos + real_of_int dx) (rect_w sceneBounds - 80);
       let py = qBound 0 (yp winPos + 40 + real_of_int dy) (rect_h sceneBounds - 10);
       let platform = \<lparr>rect_x = px, rect_y = py, rect_w = 80, rect_h = 10\<rparr>;
       Some (s\<lparr>platforms := platforms s @ [platform], rng := r2\<rparr>)
     }"

text \<open>\<^verbatim>\<open>for (int i = 0; i < safePlatforms; ++i) { ... }\<close>\<close>

function safePlatformsLoop :: "QRectF \<Rightarrow> QPointF \<Rightarrow> int \<Rightarrow> int \<Rightarrow> GameView \<Rightarrow> GameView option" where
  "safePlatformsLoop sceneBounds winPos safePlatforms i s =
     (if i < safePlatforms
      then do {
             s' \<leftarrow> safePlatform sceneBounds winPos s;
             safePlatformsLoop sceneBounds winPos safePlatforms (i + 1) s'
           }
      else Some s)"
  by pat_completeness auto
termination
  by (relation "measure (\<lambda>(sceneBounds, winPos, safePlatforms, i, s). nat (safePlatforms - i))") auto

declare safePlatformsLoop.simps [simp del]

text \<open>The first branch of \<^verbatim>\<open>generateLevel\<close>: the fixed first level.\<close>

definition firstLevel :: "GameView \<Rightarrow> GameView" where
  "firstLevel s =
     (let sceneBounds = sceneRect s;
          spawnPos = \<lparr>xp = rect_w sceneBounds / 2,
                      yp = rect_h sceneBounds - rect_h playerItemRect\<rparr>;
          basePlatform = \<lparr>rect_x = xp spawnPos - 40, rect_y = yp spawnPos + 20,
                          rect_w = 100, rect_h = 10\<rparr>
      in s\<lparr>lastSpawnPos := spawnPos,
           winCircle := Some \<lparr>rect_x = rect_w sceneBounds / 2 - 100,
                               rect_y = rect_h sceneBounds - 50, rect_w = 30, rect_h = 30\<rparr>,
           platforms := platforms s @ [basePlatform],
           player := spawnPos\<rparr>)"

text \<open>The second branch: a random goal, the path platforms and the safe platforms.\<close>

definition randomLevel :: "GameView \<Rightarrow> GameView option" where
  "randomLevel s =
     (let sceneBounds = sceneRect s; spawnPos = lastSpawnPos s in
      do {
        (winPos, r1) \<leftarrow> sampleWinPos sceneBounds spawnPos (rng s);
        let s1 = s\<lparr>winCircle := Some \<lparr>rect_x = xp winPos, rect_y = yp winPos,
                                         rect_w = 30, rect_h = 30\<rparr>,
                    rng := r1\<rparr>;
        let stepY = (yp spawnPos - yp winPos) / real_of_int numPlatforms;
        s2 \<leftarrow> pathPlatforms sceneBounds spawnPos stepY 0 s1;
        (safePlatforms, r2) \<leftarrow> drawInt 2 4 (rng s2);
        s3 \<leftarrow> safePlatformsLoop sceneBounds winPos safePlatforms 0 (s2\<lparr>rng := r2\<rparr>);
        Some (s3\<lparr>player := spawnPos\<rparr>)
      })"

definition generateLevel :: "GameView \<Rightarrow> GameView option" where
  "generateLevel s =
     (let s0 = s\<lparr>winCircle := None, redTriangles := [], platforms := [],
                 gameOverText := None\<rparr>
      in if level s0 = 0 \<or> isNull (lastSpawnPos s0)
         then Some (updateHUD (firstLevel s0))
         else map_option updateHUD (randomLevel s0))"

section \<open>The tick\<close>

text \<open>
  The local variables of \<^verbatim>\<open>updatePosition\<close> that the vertical resolution changes:
  the next position, the vertical velocity and the flag \<^verbatim>\<open>onGround\<close>.
\<close>

record Motion =
  nextPos :: QPointF
  velocity :: int
  onGround :: bool

text \<open>\<^verbatim>\<open>player->boundingRect()\<close> and \<^verbatim>\<open>platform->sceneBoundingRect()\<close>\<close>

definition playerRect :: "QtEnv \<Rightarrow> QRectF" where
  "playerRect env = boundingRect env playerItemRect"

definition sceneBoundingRect :: "QtEnv \<Rightarrow> QRectF \<Rightarrow> QRectF" where
  "sceneBoundingRect env platform = boundingRect env platform"

text \<open>The horizontal keys move the current position by 7.\<close>

definition moveSideways :: "int set \<Rightarrow> QPointF \<Rightarrow> QPointF" where
  "moveSideways keys pos =
     (let p1 = (if Key_D \<in> keys then pos\<lparr>xp := xp pos + 7\<rparr> else pos);
          p2 = (if Key_A \<in> keys then p1\<lparr>xp := xp p1 - 7\<rparr> else p1)
      in p2)"

definition currentPos :: "GameView \<Rightarrow> QPointF" where
  "currentPos s = moveSideways (keysPressed s) (player s)"

text \<open>
  Gravity: \<^verbatim>\<open>verticalVelocity -= 1; nextPos.setY(currentPos.y() - verticalVelocity);\<close>
  with \<^verbatim>\<open>onGround = false\<close>.
\<close>

definition fall :: "GameView \<Rightarrow> Motion" where
  "fall s =
     (let vv = wrap32 (verticalVelocity s - 1)
      in \<lparr>nextPos = (currentPos s)\<lparr>yp := yp (currentPos s) - real_of_int vv\<rparr>,
          velocity = vv, onGround = False\<rparr>)"

text \<open>The condition under which the player lands on a platform.\<close>

definition landsOn :: "QtEnv \<Rightarrow> QPointF \<Rightarrow> Motion \<Rightarrow> QRectF \<Rightarrow> bool" where
  "landsOn env cur m platform =
     (let platRect = sceneBoundingRect env platform;
          playerNextRect = rectAt (nextPos m) (rect_w (playerRect env)) (rect_h (playerRect env))
      in intersects playerNextRect platRect \<and> velocity m \<le> 0 \<and>
         yp cur + rect_h (playerRect env) \<le> rect_top platRect)"

text \<open>\<^verbatim>\<open>for (auto* platform : platforms) { if (...) { ...; break; } }\<close>\<close>

fun landing :: "QtEnv \<Rightarrow> QPointF \<Rightarrow> QRectF list \<Rightarrow> Motion \<Rightarrow> Motion" where
  "landing env cur [] m = m"
| "landing env cur (platform # rest) m =
     (if landsOn env cur m platform
      then m\<lparr>nextPos := (nextPos m)\<lparr>yp := rect_top (sceneBoundingRect env platform)
                                          - rect_h (playerRect env)\<rparr>,
             velocity := 0, onGround := True\<rparr>
      else landing env cur rest m)"

text \<open>The bottom of the scene stops the fall.\<close>

definition hitsFloor :: "QtEnv \<Rightarrow> QRectF \<Rightarrow> Motion \<Rightarrow> bool" where
  "hitsFloor env sceneBounds m \<longleftrightarrow>
     yp (nextPos m) \<ge> rect_bottom sceneBounds - rect_h (playerRect env)"

definition floorClamp :: "QtEnv \<Rightarrow> QRectF \<Rightarrow> Motion \<Rightarrow> Motion" where
  "floorClamp env sceneBounds m =
     (if hitsFloor env sceneBounds m
      then m\<lparr>nextPos := (nextPos m)\<lparr>yp := rect_bottom sceneBounds - rect_h (playerRect env)\<rparr>,
             onGround := True, velocity := 0\<rparr>
      else m)"

text \<open>The position and the flag after the platforms and the floor.\<close>

definition grounded :: "QtEnv \<Rightarrow> GameView \<Rightarrow> Motion" where
  "grounded env s = floorClamp env (sceneRect s) (landing env (currentPos s) (platforms s) (fall s))"

text \<open>\<^verbatim>\<open>if (keysPressed.contains(Qt::Key_W) && onGround) verticalVelocity = 20;\<close>\<close>

definition jump :: "int set \<Rightarrow> Motion \<Rightarrow> Motion" where
  "jump keys m = (if Key_W \<in> keys \<and> onGround m then m\<lparr>velocity := 20\<rparr> else m)"

text \<open>The player may not leave the scene to the left or to the right.\<close>

definition keepInside :: "QtEnv \<Rightarrow> QRectF \<Rightarrow> Motion \<Rightarrow> Motion" where
  "keepInside env sceneBounds m =
     m\<lparr>nextPos := (nextPos m)\<lparr>xp := qBound (rect_left sceneBounds) (xp (nextPos m))
                                      (rect_right sceneBounds - rect_w (playerRect env))\<rparr>\<rparr>"

text \<open>
  The first part of a tick of the running game, up to and with \<^verbatim>\<open>player->setPos(nextPos)\<close>.
\<close>

definition resolve :: "QtEnv \<Rightarrow> GameView \<Rightarrow> Motion" where
  "resolve env s = keepInside env (sceneRect s) (jump (keysPressed s) (grounded env s))"

definition movePlayer :: "QtEnv \<Rightarrow> GameView \<Rightarrow> GameView" where
  "movePlayer env s =
     s\<lparr>player := nextPos (resolve env s), verticalVelocity := velocity (resolve env s)\<rparr>"

text \<open>\<^verbatim>\<open>if (player->collidesWithItem(winCircle)) { level++; generateLevel(); }\<close>\<close>

definition reachesGoal :: "QtEnv \<Rightarrow> GameView \<Rightarrow> bool" where
  "reachesGoal env s =
     (case winCircle s of None \<Rightarrow> False | Some c \<Rightarrow> collidesEllipse env (player s) c)"

definition checkWin :: "QtEnv \<Rightarrow> GameView \<Rightarrow> GameView option" where
  "checkWin env s =
     (if reachesGoal env s then generateLevel (s\<lparr>level := wrap32 (level s + 1)\<rparr>) else Some s)"

text \<open>
  \<^verbatim>\<open>for (auto* tri : redTriangles) { if (player->collidesWithItem(tri)) { ...; break; } }\<close>
\<close>

fun checkSpikes :: "QtEnv \<Rightarrow> QPointF list list \<Rightarrow> GameView \<Rightarrow> GameView" where
  "checkSpikes env [] s = s"
| "checkSpikes env (tri # rest) s =
     (if collidesPolygon env (player s) tri
      then s\<lparr>deaths := deaths s + 1, player := lastSpawnPos s\<rparr>
      else checkSpikes env rest s)"

text \<open>The slot \<^verbatim>\<open>updatePosition\<close>, run by the timer.\<close>

definition updatePosition :: "QtEnv \<Rightarrow> GameView \<Rightarrow> GameView option" where
  "updatePosition env s =
     (if deaths s \<ge> 10
      then Some (if gameOverText s = None then showGameOver s else s)
      else do {
             s1 \<leftarrow> checkWin env (movePlayer env s);
             Some (updateHUD (checkSpikes env (redTriangles s1) s1))
           })"

section \<open>The session\<close>

text \<open>
  What can happen to a \<^verbatim>\<open>GameView\<close> once it is constructed: the timer fires, a key goes
  down or up, the window is resized (the scene then is the viewport, from the origin).
\<close>

datatype Event = Timeout | KeyPress int | KeyRelease int | Resize int int

fun handle :: "QtEnv \<Rightarrow> Event \<Rightarrow> GameView \<Rightarrow> GameView option" where
  "handle env Timeout s = updatePosition env s"
| "handle env (KeyPress k) s = Some (s\<lparr>keysPressed := insert k (keysPressed s)\<rparr>)"
| "handle env (KeyRelease k) s = Some (s\<lparr>keysPressed := keysPressed s - {k}\<rparr>)"
| "handle env (Resize w h) s =
     Some (s\<lparr>sceneRect := \<lparr>rect_x = 0, rect_y = 0, rect_w = real_of_int w,
                            rect_h = real_of_int h\<rparr>\<rparr>)"

fun run :: "QtEnv \<Rightarrow> Event list \<Rightarrow> GameView \<Rightarrow> GameView option" where
  "run env [] s = Some s"
| "run env (e # es) s = do { s' \<leftarrow> handle env e s; run env es s' }"

text \<open>The game is over when the guard at the head of \<^verbatim>\<open>updatePosition\<close> holds.\<close>

definition gameOver :: "GameView \<Rightarrow> bool" where
  "gameOver s \<longleftrightarrow> deaths s \<ge> 10"

section \<open>Notions used in the statements\<close>

text \<open>What the loop over the platforms does to the motion when the player lands on one.\<close>

definition snapTo :: "QtEnv \<Rightarrow> QRectF \<Rightarrow> Motion \<Rightarrow> Motion" where
  "snapTo env platform m =
     m\<lparr>nextPos := (nextPos m)\<lparr>yp := rect_top (sceneBoundingRect env platform)
                                      - rect_h (playerRect env)\<rparr>,
       velocity := 0, onGround := True\<rparr>"

text \<open>The player, where it is, touches neither the goal nor a spike.\<close>

definition untouched :: "QtEnv \<Rightarrow> GameView \<Rightarrow> bool" where
  "untouched env s \<longleftrightarrow>
     \<not> reachesGoal env s \<and> (\<forall>t \<in> set (redTriangles s). \<not> collidesPolygon env (player s) t)"

text \<open>
  The player is at rest on the platform \<open>p\<close>: its bottom edge is the top edge of \<open>p\<close> and
  one step of gravity would make it overlap \<open>p\<close>, it does not move and none of the three
  keys is held; no platform whose top edge is elsewhere would catch it; \<open>p\<close> is not below
  the bottom of the scene and the player is between the walls; the player touches neither
  the goal nor a spike.
\<close>

definition atRest :: "QtEnv \<Rightarrow> GameView \<Rightarrow> QRectF \<Rightarrow> bool" where
  "atRest env s p \<longleftrightarrow>
     p \<in> set (platforms s) \<and>
     yp (player s) + rect_h (playerRect env) = rect_top (sceneBoundingRect env p) \<and>
     landsOn env (player s) (fall s) p \<and>
     verticalVelocity s = 0 \<and>
     Key_A \<notin> keysPressed s \<and> Key_D \<notin> keysPressed s \<and> Key_W \<notin> keysPressed s \<and>
     (\<forall>q \<in> set (platforms s). landsOn env (player s) (fall s) q \<longrightarrow>
        rect_top (sceneBoundingRect env q) = rect_top (sceneBoundingRect env p)) \<and>
     rect_top (sceneBoundingRect env p) \<le> rect_bottom (sceneRect s) \<and>
     rect_left (sceneRect s) \<le> xp (player s) \<and>
     xp (player s) \<le> rect_right (sceneRect s) - rect_w (playerRect env) \<and>
     untouched env s"

text \<open>
  A draw that both rejection loops accept whatever the other numbers are: as a horizontal
  position of a platform it is at least 100 away from the spawn point, and as a
  horizontal position of the goal at least 150.
\<close>

definition goodDraw :: "QRectF \<Rightarrow> QPointF \<Rightarrow> real \<Rightarrow> bool" where
  "goodDraw sceneBounds spawnPos u \<longleftrightarrow>
     100 \<le> \<bar>boundedReal (rect_w sceneBounds - 80) u - xp spawnPos\<bar> \<and>
     150 \<le> \<bar>boundedReal (rect_w sceneBounds) u - xp spawnPos\<bar>"

text \<open>How many draws at the end of the list are all of a given kind.\<close>

definition spare :: "(real \<Rightarrow> bool) \<Rightarrow> real list \<Rightarrow> nat" where
  "spare good us = length (takeWhile good (rev us))"

section \<open>Example views\<close>

text \<open>
  Concrete parameters and states on which the model is run: an environment with the
  default pen of width one whose collisions are decided on rectangles, the members
  before the first call of \<^verbatim>\<open>generateLevel\<close>, and the first two levels of a game on the
  scene of \<^verbatim>\<open>main\<close>.
\<close>

definition boxEnv :: QtEnv where
  "boxEnv =
     \<lparr>halfPen = 1 / 2,
      collidesEllipse = (\<lambda>pos c. intersects (rectAt pos 20 20) c),
      collidesPolygon = (\<lambda>pos tri. list_ex (\<lambda>q. xp pos < xp q \<and> xp q < xp pos + 20 \<and>
                                               yp pos < yp q \<and> yp q < yp pos + 20) tri)\<rparr>"

definition newView :: GameView where
  "newView =
     \<lparr>player = \<lparr>xp = 0, yp = 0\<rparr>, winCircle = None, redTriangles = [], platforms = [],
      keysPressed = {}, verticalVelocity = 0, deaths = 0, level = 0,
      livesText = [], levelsText = [], lastSpawnPos = \<lparr>xp = 0, yp = 0\<rparr>,
      gameOverText = None,
      sceneRect = \<lparr>rect_x = 0, rect_y = 0, rect_w = 1000, rect_h = 500\<rparr>, rng = []\<rparr>"

definition firstView :: GameView where
  "firstView =
     \<lparr>player = \<lparr>xp = 500, yp = 480\<rparr>,
      winCircle = Some \<lparr>rect_x = 400, rect_y = 450, rect_w = 30, rect_h = 30\<rparr>,
      redTriangles = [],
      platforms = [\<lparr>rect_x = 460, rect_y = 500, rect_w = 100, rect_h = 10\<rparr>],
      keysPressed = {}, verticalVelocity = 0, deaths = 0, level = 0,
      livesText = ''Lives left: 10'', levelsText = ''Levels won: 0'',
      lastSpawnPos = \<lparr>xp = 500, yp = 480\<rparr>, gameOverText = None,
      sceneRect = \<lparr>rect_x = 0, rect_y = 0, rect_w = 1000, rect_h = 500\<rparr>, rng = []\<rparr>"

definition draws :: "real list" where
  "draws =
     [1 / 5, 6 / 25,
      1 / 2, 1 / 4, 1 / 2,
      3 / 4, 1 / 10, 1 / 2,
      1 / 4, 1 / 2,
      1 / 2, 1 / 2,  1 / 2, 1 / 2,  1 / 2, 1 / 2,  1 / 2, 1 / 2,  1 / 2, 1 / 2,  1 / 2, 1 / 2,
      1 / 2, 1 / 2,  1 / 2, 1 / 2,  1 / 2, 1 / 2,  1 / 2, 1 / 2,  1 / 2, 1 / 2,
      1 / 2,
      1 / 2, 1 / 2,  0, 0,  3 / 4, 3 / 4]"

definition secondView :: GameView where
  "secondView =
     \<lparr>player = \<lparr>xp = 500, yp = 480\<rparr>,
      winCircle = Some \<lparr>rect_x = 200, rect_y = 60, rect_w = 30, rect_h = 30\<rparr>,
      redTriangles = [[\<lparr>xp = 740, yp = 440\<rparr>, \<lparr>xp = 730, yp = 450\<rparr>, \<lparr>xp = 750, yp = 450\<rparr>]],
      platforms =
        [\<lparr>rect_x = 230, rect_y = 480, rect_w = 80, rect_h = 10\<rparr>,
         \<lparr>rect_x = 690, rect_y = 450, rect_w = 80, rect_h = 10\<rparr>,
         \<lparr>rect_x = 230, rect_y = 420, rect_w = 80, rect_h = 10\<rparr>,
         \<lparr>rect_x = 460, rect_y = 390, rect_w = 80, rect_h = 10\<rparr>,
         \<lparr>rect_x = 460, rect_y = 360, rect_w = 80, rect_h = 10\<rparr>,
         \<lparr>rect_x = 460, rect_y = 330, rect_w = 80, rect_h = 10\<rparr>,
         \<lparr>rect_x = 460, rect_y = 300, rect_w = 80, rect_h = 10\<rparr>,
         \<lparr>rect_x = 460, rect_y = 270, rect_w = 80, rect_h = 10\<rparr>,
         \<lparr>rect_x = 460, rect_y = 240, rect_w = 80, rect_h = 10\<rparr>,
         \<lparr>rect_x = 460, rect_y = 210, rect_w = 80, rect_h = 10\<rparr>,
         \<lparr>rect_x = 460, rect_y = 180, rect_w = 80, rect_h = 10\<rparr>,
         \<lparr>rect_x = 460, rect_y = 150, rect_w = 80, rect_h = 10\<rparr>,
         \<lparr>rect_x = 460, rect_y = 120, rect_w = 80, rect_h = 10\<rparr>,
         \<lparr>rect_x = 460, rect_y = 90, rect_w = 80, rect_h = 10\<rparr>,
         \<lparr>rect_x = 200, rect_y = 120, rect_w = 80, rect_h = 10\<rparr>,
         \<lparr>rect_x = 140, rect_y = 100, rect_w = 80, rect_h = 10\<rparr>,
         \<lparr>rect_x = 230, rect_y = 130, rect_w = 80, rect_h = 10\<rparr>],
      keysPressed = {}, verticalVelocity = 0, deaths = 0, level = 1,
      livesText = ''Lives left: 10'', levelsText = ''Levels won: 1'',
      lastSpawnPos = \<lparr>xp = 500, yp = 480\<rparr>, gameOverText = None,
      sceneRect = \<lparr>rect_x = 0, rect_y = 0, rect_w = 1000, rect_h = 500\<rparr>, rng = []\<rparr>"

text \<open>Views of the running game, for single ticks.\<close>

definition fallingView :: GameView where
  "fallingView =
     \<lparr>player = \<lparr>xp = 500, yp = 375\<rparr>,
      winCircle = Some \<lparr>rect_x = 200, rect_y = 60, rect_w = 30, rect_h = 30\<rparr>,
      redTriangles = [],
      platforms = [\<lparr>rect_x = 100, rect_y = 400, rect_w = 80, rect_h = 10\<rparr>,
                   \<lparr>rect_x = 460, rect_y = 400, rect_w = 80, rect_h = 10\<rparr>,
                   \<lparr>rect_x = 480, rect_y = 399, rect_w = 80, rect_h = 10\<rparr>],
      keysPressed = {}, verticalVelocity = - 4, deaths = 0, level = 1,
      livesText = ''Lives left: 10'', levelsText = ''Levels won: 1'',
      lastSpawnPos = \<lparr>xp = 500, yp = 480\<rparr>, gameOverText = None,
      sceneRect = \<lparr>rect_x = 0, rect_y = 0, rect_w = 1000, rect_h = 500\<rparr>, rng = []\<rparr>"


definition spikedView :: GameView where
  "spikedView =
     firstView\<lparr>player := \<lparr>xp = 500, yp = 479\<rparr>,
               redTriangles := [[\<lparr>xp = 510, yp = 489\<rparr>, \<lparr>xp = 505, yp = 495\<rparr>, \<lparr>xp = 515, yp = 495\<rparr>],
                                [\<lparr>xp = 512, yp = 489\<rparr>, \<lparr>xp = 507, yp = 495\<rparr>, \<lparr>xp = 517, yp = 495\<rparr>]],
               deaths := 3, livesText := ''Lives left: 7''\<rparr>"

definition lastLifeView :: GameView where
  "lastLifeView = spikedView\<lparr>deaths := 9, livesText := ''Lives left: 1''\<rparr>"

definition deadView :: GameView where
  "deadView = spikedView\<lparr>player := \<lparr>xp = 500, yp = 480\<rparr>, verticalVelocity := 0, deaths := 10, livesText := ''Lives left: 0''\<rparr>"

definition winningView :: GameView where
  "winningView = firstView\<lparr>player := \<lparr>xp = 430, yp = 479\<rparr>, keysPressed := {Key_A}, rng := draws\<rparr>"

definition jumpView :: GameView where
  "jumpView = firstView\<lparr>keysPressed := {Key_W}\<rparr>"

definition restingView :: GameView where
  "restingView = secondView\<lparr>player := \<lparr>xp = 480, yp = 737 / 2\<rparr>\<rparr>"

definition sinkingView :: GameView where
  "sinkingView =
     firstView\<lparr>player := \<lparr>xp = 480, yp = 737 / 2\<rparr>,
               platforms := [\<lparr>rect_x = 460, rect_y = 781 / 2, rect_w = 80, rect_h = 10\<rparr>,
                             \<lparr>rect_x = 460, rect_y = 390, rect_w = 80, rect_h = 10\<rparr>]\<rparr>"

definition lowView :: GameView where
  "lowView =
     firstView\<lparr>player := \<lparr>xp = 500, yp = 479\<rparr>,
               platforms := [\<lparr>rect_x = 460, rect_y = 501, rect_w = 100, rect_h = 10\<rparr>]\<rparr>"


definition luckyView :: GameView where
  "luckyView =
     firstView\<lparr>player := \<lparr>xp = 430, yp = 479\<rparr>, keysPressed := {Key_A},
               rng := [1 / 2, 1 / 2, 1 / 2] @ replicate 52 0\<rparr>"

section \<open>Level generation: properties and claims\<close>

lemma lineLength_less_150:
  "lineLength p q < 150 \<longleftrightarrow> (xp q - xp p)\<^sup>2 + (yp q - yp p)\<^sup>2 < 22500"
proof -
  have "sqrt 22500 = 150" by (rule real_sqrt_unique) simp_all
  then show ?thesis
    unfolding lineLength_def by (metis real_sqrt_less_iff)
qed

lemma samplePlatformX_outside:
  "samplePlatformX sceneBounds spawnPos y us = Some (x, r) \<Longrightarrow>
     \<not> (\<bar>x - xp spawnPos\<bar> < 100 \<and> \<bar>y - yp spawnPos\<bar> < 80)"
  by (induction sceneBounds spawnPos y us rule: samplePlatformX.induct)
     (auto simp: Let_def split: if_splits)

lemma sampleWinPos_far:
  "sampleWinPos sceneBounds spawnPos us = Some (winPos, r) \<Longrightarrow>
     150 \<le> lineLength spawnPos winPos"
  by (induction sceneBounds spawnPos us rule: sampleWinPos.induct)
     (auto simp: Let_def split: if_splits)

lemma sampleWinPos_drawn:
  "sampleWinPos sceneBounds spawnPos us = Some (winPos, r) \<Longrightarrow>
     \<exists>u1 \<in> set us. \<exists>u2 \<in> set us.
        winPos = \<lparr>xp = boundedReal (rect_w sceneBounds) u1,
                  yp = boundedReal (rect_h sceneBounds / 2) u2\<rparr>"
  by (induction sceneBounds spawnPos us rule: sampleWinPos.induct)
     (auto simp: Let_def split: if_splits)

lemma pathPlatform_shape:
  assumes "pathPlatform sceneBounds spawnPos stepY i s = Some s'"
  shows "\<exists>p ts r. s' = s\<lparr>platforms := platforms s @ [p], redTriangles := redTriangles s @ ts, rng := r\<rparr>
           \<and> \<not> (\<bar>rect_x p - xp spawnPos\<bar> < 100 \<and> \<bar>rect_y p - yp spawnPos\<bar> < 80)"
proof -
  let ?y = "yp spawnPos - real_of_int i * stepY"
  from assms obtain x r1 where x: "samplePlatformX sceneBounds spawnPos ?y (rng s) = Some (x, r1)"
    by (auto simp: pathPlatform_def Let_def split: bind_splits)
  let ?p = "\<lparr>rect_x = x, rect_y = ?y, rect_w = 80, rect_h = 10\<rparr>"
  from assms x obtain chance r2 where c: "drawInt 0 100 r1 = Some (chance, r2)"
    by (auto simp: pathPlatform_def Let_def split: bind_splits)
  have "\<exists>ts r. s' = s\<lparr>platforms := platforms s @ [?p], redTriangles := redTriangles s @ ts, rng := r\<rparr>"
  proof (cases "chance < 40")
    case True
    with assms x c obtain t r3 where
      "s' = s\<lparr>platforms := platforms s @ [?p], redTriangles := redTriangles s @ [t], rng := r3\<rparr>"
      by (auto simp: pathPlatform_def Let_def split: bind_splits)
    then show ?thesis by blast
  next
    case False
    with assms x c have "s' = s\<lparr>platforms := platforms s @ [?p], redTriangles := redTriangles s @ [], rng := r2\<rparr>"
      by (auto simp: pathPlatform_def Let_def split: bind_splits)
    then show ?thesis by blast
  qed
  moreover from samplePlatformX_outside [OF x]
  have "\<not> (\<bar>rect_x ?p - xp spawnPos\<bar> < 100 \<and> \<bar>rect_y ?p - yp spawnPos\<bar> < 80)" by simp
  ultimately show ?thesis by blast
qed

lemma pathPlatforms_shape:
  "pathPlatforms sceneBounds spawnPos stepY i s = Some s' \<Longrightarrow>
     \<exists>ps ts r. s' = s\<lparr>platforms := platforms s @ ps, redTriangles := redTriangles s @ ts, rng := r\<rparr>
        \<and> int (length ps) = max 0 (numPlatforms - i)
        \<and> (\<forall>p \<in> set ps. \<not> (\<bar>rect_x p - xp spawnPos\<bar> < 100 \<and> \<bar>rect_y p - yp spawnPos\<bar> < 80))"
proof (induction sceneBounds spawnPos stepY i s rule: pathPlatforms.induct)
  case (1 sceneBounds spawnPos stepY i s)
  show ?case
  proof (cases "i < numPlatforms")
    case False
    with "1.prems" have "s' = s" by (simp add: pathPlatforms.simps)
    with False show ?thesis by (intro exI [of _ "[]"] exI [of _ "rng s"]) simp
  next
    case True
    with "1.prems" obtain s1 where
      s1: "pathPlatform sceneBounds spawnPos stepY i s = Some s1"
      and rest: "pathPlatforms sceneBounds spawnPos stepY (i + 1) s1 = Some s'"
      by (subst (asm) pathPlatforms.simps) (auto split: bind_splits)
    from pathPlatform_shape [OF s1] obtain p ts r where
      p: "s1 = s\<lparr>platforms := platforms s @ [p], redTriangles := redTriangles s @ ts, rng := r\<rparr>"
         "\<not> (\<bar>rect_x p - xp spawnPos\<bar> < 100 \<and> \<bar>rect_y p - yp spawnPos\<bar> < 80)"
      by blast
    from "1.IH" [OF True s1 rest] obtain ps ts' r' where
      ps: "s' = s1\<lparr>platforms := platforms s1 @ ps, redTriangles := redTriangles s1 @ ts', rng := r'\<rparr>"
          "int (length ps) = max 0 (numPlatforms - (i + 1))"
          "\<forall>p \<in> set ps. \<not> (\<bar>rect_x p - xp spawnPos\<bar> < 100 \<and> \<bar>rect_y p - yp spawnPos\<bar> < 80)"
      by blast
    have "s' = s\<lparr>platforms := platforms s @ (p # ps), redTriangles := redTriangles s @ (ts @ ts'), rng := r'\<rparr>"
      using p(1) ps(1) by simp
    moreover have "int (length (p # ps)) = max 0 (numPlatforms - i)"
      using ps(2) True by simp
    moreover have "\<forall>q \<in> set (p # ps). \<not> (\<bar>rect_x q - xp spawnPos\<bar> < 100 \<and> \<bar>rect_y q - yp spawnPos\<bar> < 80)"
      using p(2) ps(3) by simp
    ultimately show ?thesis by blast
  qed
qed

lemma safePlatform_shape:
  "safePlatform sceneBounds winPos s = Some s' \<Longrightarrow>
     \<exists>p r. s' = s\<lparr>platforms := platforms s @ [p], rng := r\<rparr>"
  by (auto simp: safePlatform_def Let_def split: bind_splits) blast

lemma safePlatformsLoop_shape:
  "safePlatformsLoop sceneBounds winPos n i s = Some s' \<Longrightarrow>
     \<exists>ps r. s' = s\<lparr>platforms := platforms s @ ps, rng := r\<rparr>"
proof (induction sceneBounds winPos n i s rule: safePlatformsLoop.induct)
  case (1 sceneBounds winPos n i s)
  show ?case
  proof (cases "i < n")
    case False
    with "1.prems" have "s' = s" by (simp add: safePlatformsLoop.simps)
    then show ?thesis by (intro exI [of _ "[]"] exI [of _ "rng s"]) simp
  next
    case True
    with "1.prems" obtain s1 where
      s1: "safePlatform sceneBounds winPos s = Some s1"
      and rest: "safePlatformsLoop sceneBounds winPos n (i + 1) s1 = Some s'"
      by (subst (asm) safePlatformsLoop.simps) (auto split: bind_splits)
    from safePlatform_shape [OF s1] obtain p r where
      p: "s1 = s\<lparr>platforms := platforms s @ [p], rng := r\<rparr>" by blast
    from "1.IH" [OF True s1 rest] obtain ps r' where
      ps: "s' = s1\<lparr>platforms := platforms s1 @ ps, rng := r'\<rparr>" by blast
    have "s' = s\<lparr>platforms := platforms s @ (p # ps), rng := r'\<rparr>"
      using p ps by simp
    then show ?thesis by blast
  qed
qed

text \<open>The equations that run the generator on a concrete view.\<close>

lemmas level_defs =
  pathPlatforms.simps safePlatformsLoop.simps generateLevel_def isNull_def firstLevel_def
  randomLevel_def lineLength_less_150 boundedReal_def boundedInt_def numPlatforms_def
  pathPlatform_def safePlatform_def

lemmas eval_defs = level_defs updateHUD_def number_def playerItemRect_def Let_def qBound_def

lemma generateLevel_firstView: "generateLevel newView = Some firstView"
  by (simp add: eval_defs newView_def firstView_def)

lemma generateLevel_secondView:
  "generateLevel (firstView\<lparr>level := 1, rng := draws\<rparr>) = Some secondView"
  by (simp add: eval_defs firstView_def secondView_def draws_def cong: bind_option_cong_code)

lemma randomLevel_shape:
  assumes "randomLevel s = Some s'"
  shows "\<exists>winPos path safe ts r.
           s' = s\<lparr>player := lastSpawnPos s,
                   winCircle := Some \<lparr>rect_x = xp winPos, rect_y = yp winPos, rect_w = 30, rect_h = 30\<rparr>,
                   redTriangles := redTriangles s @ ts,
                   platforms := platforms s @ path @ safe, rng := r\<rparr>
           \<and> length path = 14
           \<and> (\<forall>p \<in> set path. \<not> (\<bar>rect_x p - xp (lastSpawnPos s)\<bar> < 100 \<and>
                                   \<bar>rect_y p - yp (lastSpawnPos s)\<bar> < 80))
           \<and> 150 \<le> lineLength (lastSpawnPos s) winPos
           \<and> (\<exists>u1 \<in> set (rng s). \<exists>u2 \<in> set (rng s).
                 winPos = \<lparr>xp = boundedReal (rect_w (sceneRect s)) u1,
                           yp = boundedReal (rect_h (sceneRect s) / 2) u2\<rparr>)"
proof -
  let ?sp = "lastSpawnPos s" and ?sb = "sceneRect s"
  from assms obtain winPos r1 where
    w: "sampleWinPos ?sb ?sp (rng s) = Some (winPos, r1)"
    by (auto simp: randomLevel_def Let_def split: bind_splits)
  let ?s1 = "s\<lparr>winCircle := Some \<lparr>rect_x = xp winPos, rect_y = yp winPos, rect_w = 30, rect_h = 30\<rparr>,
               rng := r1\<rparr>"
  let ?stepY = "(yp ?sp - yp winPos) / real_of_int numPlatforms"
  from assms w obtain s2 where
    s2: "pathPlatforms ?sb ?sp ?stepY 0 ?s1 = Some s2"
    by (auto simp: randomLevel_def Let_def split: bind_splits)
  from assms w s2 obtain n r2 where
    n: "drawInt 2 4 (rng s2) = Some (n, r2)"
    by (auto simp: randomLevel_def Let_def split: bind_splits)
  from assms w s2 n obtain s3 where
    s3: "safePlatformsLoop ?sb winPos n 0 (s2\<lparr>rng := r2\<rparr>) = Some s3"
    and s': "s' = s3\<lparr>player := ?sp\<rparr>"
    by (auto simp: randomLevel_def Let_def split: bind_splits)
  from pathPlatforms_shape [OF s2] obtain path ts r where
    path: "s2 = ?s1\<lparr>platforms := platforms ?s1 @ path, redTriangles := redTriangles ?s1 @ ts, rng := r\<rparr>"
      "int (length path) = max 0 (numPlatforms - 0)"
      "\<forall>p \<in> set path. \<not> (\<bar>rect_x p - xp ?sp\<bar> < 100 \<and> \<bar>rect_y p - yp ?sp\<bar> < 80)"
    by blast
  from safePlatformsLoop_shape [OF s3] obtain safe r' where
    safe: "s3 = (s2\<lparr>rng := r2\<rparr>)\<lparr>platforms := platforms (s2\<lparr>rng := r2\<rparr>) @ safe, rng := r'\<rparr>"
    by blast
  have "s' = s\<lparr>player := ?sp,
                winCircle := Some \<lparr>rect_x = xp winPos, rect_y = yp winPos, rect_w = 30, rect_h = 30\<rparr>,
                redTriangles := redTriangles s @ ts,
                platforms := platforms s @ path @ safe, rng := r'\<rparr>"
    using s' safe path(1) by simp
  moreover have "length path = 14"
    using path(2) by (simp add: numPlatforms_def)
  moreover note path(3) sampleWinPos_far [OF w] sampleWinPos_drawn [OF w]
  ultimately have "s' = s\<lparr>player := lastSpawnPos s,
                   winCircle := Some \<lparr>rect_x = xp winPos, rect_y = yp winPos, rect_w = 30, rect_h = 30\<rparr>,
                   redTriangles := redTriangles s @ ts,
                   platforms := platforms s @ path @ safe, rng := r'\<rparr>
           \<and> length path = 14
           \<and> (\<forall>p \<in> set path. \<not> (\<bar>rect_x p - xp (lastSpawnPos s)\<bar> < 100 \<and>
                                   \<bar>rect_y p - yp (lastSpawnPos s)\<bar> < 80))
           \<and> 150 \<le> lineLength (lastSpawnPos s) winPos
           \<and> (\<exists>u1 \<in> set (rng s). \<exists>u2 \<in> set (rng s).
                 winPos = \<lparr>xp = boundedReal (rect_w (sceneRect s)) u1,
                           yp = boundedReal (rect_h (sceneRect s) / 2) u2\<rparr>)"
    by (intro conjI)
  then show ?thesis by iprover
qed


lemma generateLevel_random:
  assumes "level s \<noteq> 0" and "\<not> isNull (lastSpawnPos s)" and "generateLevel s = Some s'"
  shows "\<exists>winPos path safe ts r.
           s' = updateHUD (s\<lparr>gameOverText := None, player := lastSpawnPos s,
                   winCircle := Some \<lparr>rect_x = xp winPos, rect_y = yp winPos, rect_w = 30, rect_h = 30\<rparr>,
                   redTriangles := ts, platforms := path @ safe, rng := r\<rparr>)
           \<and> length path = 14
           \<and> (\<forall>p \<in> set path. \<not> (\<bar>rect_x p - xp (lastSpawnPos s)\<bar> < 100 \<and>
                                   \<bar>rect_y p - yp (lastSpawnPos s)\<bar> < 80))
           \<and> 150 \<le> lineLength (lastSpawnPos s) winPos
           \<and> (\<exists>u1 \<in> set (rng s). \<exists>u2 \<in> set (rng s).
                 winPos = \<lparr>xp = boundedReal (rect_w (sceneRect s)) u1,
                           yp = boundedReal (rect_h (sceneRect s) / 2) u2\<rparr>)"
proof -
  let ?s0 = "s\<lparr>winCircle := None, redTriangles := [], platforms := [], gameOverText := None\<rparr>"
  from assms obtain g where g: "randomLevel ?s0 = Some g" and s': "s' = updateHUD g"
    by (auto simp: generateLevel_def Let_def)
  from randomLevel_shape [OF g] obtain winPos :: QPointF and path safe ts r where
    eq: "g = ?s0\<lparr>player := lastSpawnPos ?s0,
                   winCircle := Some \<lparr>rect_x = xp winPos, rect_y = yp winPos, rect_w = 30, rect_h = 30\<rparr>,
                   redTriangles := redTriangles ?s0 @ ts,
                   platforms := platforms ?s0 @ path @ safe, rng := r\<rparr>"
    and len: "length path = 14"
    and out: "\<forall>p \<in> set path. \<not> (\<bar>rect_x p - xp (lastSpawnPos ?s0)\<bar> < 100 \<and>
                                   \<bar>rect_y p - yp (lastSpawnPos ?s0)\<bar> < 80)"
    and far: "150 \<le> lineLength (lastSpawnPos ?s0) winPos"
    and drawn: "\<exists>u1 \<in> set (rng ?s0). \<exists>u2 \<in> set (rng ?s0).
                 winPos = \<lparr>xp = boundedReal (rect_w (sceneRect ?s0)) u1,
                           yp = boundedReal (rect_h (sceneRect ?s0) / 2) u2\<rparr>"
    by blast
  have "s' = updateHUD (s\<lparr>gameOverText := None, player := lastSpawnPos s,
                   winCircle := Some \<lparr>rect_x = xp winPos, rect_y = yp winPos, rect_w = 30, rect_h = 30\<rparr>,
                   redTriangles := ts, platforms := path @ safe, rng := r\<rparr>)"
    unfolding s' eq by simp
  moreover from out have "\<forall>p \<in> set path. \<not> (\<bar>rect_x p - xp (lastSpawnPos s)\<bar> < 100 \<and>
                                   \<bar>rect_y p - yp (lastSpawnPos s)\<bar> < 80)" by simp
  moreover from far have "150 \<le> lineLength (lastSpawnPos s) winPos" by simp
  moreover from drawn have "\<exists>u1 \<in> set (rng s). \<exists>u2 \<in> set (rng s).
                 winPos = \<lparr>xp = boundedReal (rect_w (sceneRect s)) u1,
                           yp = boundedReal (rect_h (sceneRect s) / 2) u2\<rparr>" by simp
  moreover note len
  ultimately have "s' = updateHUD (s\<lparr>gameOverText := None, player := lastSpawnPos s,
                   winCircle := Some \<lparr>rect_x = xp winPos, rect_y = yp winPos, rect_w = 30, rect_h = 30\<rparr>,
                   redTriangles := ts, platforms := path @ safe, rng := r\<rparr>)
           \<and> length path = 14
           \<and> (\<forall>p \<in> set path. \<not> (\<bar>rect_x p - xp (lastSpawnPos s)\<bar> < 100 \<and>
                                   \<bar>rect_y p - yp (lastSpawnPos s)\<bar> < 80))
           \<and> 150 \<le> lineLength (lastSpawnPos s) winPos
           \<and> (\<exists>u1 \<in> set (rng s). \<exists>u2 \<in> set (rng s).
                 winPos = \<lparr>xp = boundedReal (rect_w (sceneRect s)) u1,
                           yp = boundedReal (rect_h (sceneRect s) / 2) u2\<rparr>)"
    by (intro conjI)
  then show ?thesis by iprover
qed

text \<open>
  Claim C4.  In the second branch of \<^verbatim>\<open>generateLevel\<close> (the level is not 0 and there is
  a spawn anchor) the path platforms are the first 14 platforms of the new list.  The
  position of none of them passes the test of the rejection loop: it is never both less
  than 100 away from the spawn point horizontally and less than 80 away vertically.  So
  no path platform lies in the exclusion box around the spawn point, whether 100 and 80
  are read as its half extents (the test of the code) or as its full extents.
\<close>

theorem path_platforms_outside_spawn_box:
  assumes "level s \<noteq> 0" and "\<not> isNull (lastSpawnPos s)" and "generateLevel s = Some s'"
  shows "14 \<le> length (platforms s') \<and>
         (\<forall>p \<in> set (take 14 (platforms s')).
            \<not> (\<bar>rect_x p - xp (lastSpawnPos s)\<bar> < 100 \<and> \<bar>rect_y p - yp (lastSpawnPos s)\<bar> < 80))"
proof -
  from generateLevel_random [OF assms] obtain winPos :: QPointF and path safe ts r where
    s': "s' = updateHUD (s\<lparr>gameOverText := None, player := lastSpawnPos s,
                   winCircle := Some \<lparr>rect_x = xp winPos, rect_y = yp winPos, rect_w = 30, rect_h = 30\<rparr>,
                   redTriangles := ts, platforms := path @ safe, rng := r\<rparr>)"
    and len: "length path = 14"
    and out: "\<forall>p \<in> set path. \<not> (\<bar>rect_x p - xp (lastSpawnPos s)\<bar> < 100 \<and>
                                   \<bar>rect_y p - yp (lastSpawnPos s)\<bar> < 80)"
    by blast
  from s' have "platforms s' = path @ safe" by (simp add: updateHUD_def)
  with len out show ?thesis by simp
qed


theorem path_platforms_outside_spawn_box_witness:
  "level (firstView\<lparr>level := 1, rng := draws\<rparr>) \<noteq> 0 \<and>
   \<not> isNull (lastSpawnPos (firstView\<lparr>level := 1, rng := draws\<rparr>)) \<and>
   generateLevel (firstView\<lparr>level := 1, rng := draws\<rparr>) = Some secondView \<and>
   14 \<le> length (platforms secondView) \<and>
   list_all (\<lambda>p. \<not> (\<bar>rect_x p - 500\<bar> < 100 \<and> \<bar>rect_y p - 480\<bar> < 80))
     (take 14 (platforms secondView))"
proof -
  have a: "level (firstView\<lparr>level := 1, rng := draws\<rparr>) \<noteq> 0" by simp
  have b: "\<not> isNull (lastSpawnPos (firstView\<lparr>level := 1, rng := draws\<rparr>))"
    by (simp add: isNull_def firstView_def)
  have c: "lastSpawnPos (firstView\<lparr>level := 1, rng := draws\<rparr>) = \<lparr>xp = 500, yp = 480\<rparr>"
    by (simp add: firstView_def)
  show ?thesis
    using a b generateLevel_secondView
      path_platforms_outside_spawn_box [OF a b generateLevel_secondView]
    unfolding c list_all_iff by simp
qed

text \<open>
  Claim C5.  In the second branch of \<^verbatim>\<open>generateLevel\<close>, on a scene that starts at the
  origin and has a positive width and height, with draws of the unit interval: the goal
  is at least 150 away from the spawn anchor in a straight line, its vertical position is
  in the upper half of the scene, and its horizontal position within the scene.
\<close>

theorem goal_far_in_upper_half:
  assumes "level s \<noteq> 0" and "\<not> isNull (lastSpawnPos s)" and "generateLevel s = Some s'"
    and "unitDraws (rng s)"
    and "rect_x (sceneRect s) = 0" and "rect_y (sceneRect s) = 0"
    and "0 < rect_w (sceneRect s)" and "0 < rect_h (sceneRect s)"
  shows "\<exists>g. winCircle s' = Some g \<and>
           150 \<le> lineLength (lastSpawnPos s) \<lparr>xp = rect_x g, yp = rect_y g\<rparr> \<and>
           rect_top (sceneRect s) \<le> rect_y g \<and>
           rect_y g < (rect_top (sceneRect s) + rect_bottom (sceneRect s)) / 2 \<and>
           rect_left (sceneRect s) \<le> rect_x g \<and> rect_x g < rect_right (sceneRect s)"
proof -
  from generateLevel_random [OF assms(1-3)] obtain winPos :: QPointF and path safe ts r where
    s': "s' = updateHUD (s\<lparr>gameOverText := None, player := lastSpawnPos s,
                   winCircle := Some \<lparr>rect_x = xp winPos, rect_y = yp winPos, rect_w = 30, rect_h = 30\<rparr>,
                   redTriangles := ts, platforms := path @ safe, rng := r\<rparr>)"
    and far: "150 \<le> lineLength (lastSpawnPos s) winPos"
    and drawn: "\<exists>u1 \<in> set (rng s). \<exists>u2 \<in> set (rng s).
                 winPos = \<lparr>xp = boundedReal (rect_w (sceneRect s)) u1,
                           yp = boundedReal (rect_h (sceneRect s) / 2) u2\<rparr>"
    by blast
  let ?g = "\<lparr>rect_x = xp winPos, rect_y = yp winPos, rect_w = 30, rect_h = 30\<rparr>"
  from drawn obtain u1 u2 where u: "u1 \<in> set (rng s)" "u2 \<in> set (rng s)"
    and w: "xp winPos = u1 * rect_w (sceneRect s)" "yp winPos = u2 * (rect_h (sceneRect s) / 2)"
    by (auto simp: boundedReal_def)
  from u assms(4) have unit: "0 \<le> u1" "u1 < 1" "0 \<le> u2" "u2 < 1"
    by (auto simp: unitDraws_def list_all_iff)
  have gx: "0 \<le> xp winPos" "xp winPos < rect_w (sceneRect s)"
  proof -
    show "0 \<le> xp winPos" unfolding w using unit(1) assms(7) by simp
    have "u1 * rect_w (sceneRect s) < 1 * rect_w (sceneRect s)"
      using unit(2) assms(7) by (rule mult_strict_right_mono)
    then show "xp winPos < rect_w (sceneRect s)" unfolding w by simp
  qed
  have gy: "0 \<le> yp winPos" "yp winPos < rect_h (sceneRect s) / 2"
  proof -
    show "0 \<le> yp winPos" unfolding w using unit(3) assms(8) by simp
    have "0 < rect_h (sceneRect s) / 2" using assms(8) by simp
    with unit(4) have "u2 * (rect_h (sceneRect s) / 2) < 1 * (rect_h (sceneRect s) / 2)"
      by (rule mult_strict_right_mono)
    then show "yp winPos < rect_h (sceneRect s) / 2" unfolding w by simp
  qed
  have "winCircle s' = Some ?g" by (simp add: s' updateHUD_def)
  moreover have "150 \<le> lineLength (lastSpawnPos s) \<lparr>xp = rect_x ?g, yp = rect_y ?g\<rparr>"
    using far by (simp add: lineLength_def)
  moreover have "rect_top (sceneRect s) \<le> rect_y ?g"
    using gy assms(6) by (simp add: rect_top_def)
  moreover have "rect_y ?g < (rect_top (sceneRect s) + rect_bottom (sceneRect s)) / 2"
    using gy assms(6) by (simp add: rect_top_def rect_bottom_def)
  moreover have "rect_left (sceneRect s) \<le> rect_x ?g"
    using gx assms(5) by (simp add: rect_left_def)
  moreover have "rect_x ?g < rect_right (sceneRect s)"
    using gx assms(5) by (simp add: rect_left_def rect_right_def)
  ultimately show ?thesis by blast
qed

theorem goal_far_in_upper_half_witness:
  "level (firstView\<lparr>level := 1, rng := draws\<rparr>) \<noteq> 0 \<and>
   \<not> isNull (lastSpawnPos (firstView\<lparr>level := 1, rng := draws\<rparr>)) \<and>
   generateLevel (firstView\<lparr>level := 1, rng := draws\<rparr>) = Some secondView \<and>
   unitDraws draws \<and>
   winCircle secondView = Some \<lparr>rect_x = 200, rect_y = 60, rect_w = 30, rect_h = 30\<rparr> \<and>
   150 \<le> lineLength \<lparr>xp = 500, yp = 480\<rparr> \<lparr>xp = 200, yp = 60\<rparr>"
proof -
  let ?s = "firstView\<lparr>level := 1, rng := draws\<rparr>"
  have a: "level ?s \<noteq> 0" by simp
  have b: "\<not> isNull (lastSpawnPos ?s)"
    by (simp add: isNull_def firstView_def)
  have c: "unitDraws (rng ?s)" by (simp add: unitDraws_def draws_def)
  have d: "rect_x (sceneRect ?s) = 0" "rect_y (sceneRect ?s) = 0"
    "0 < rect_w (sceneRect ?s)" "0 < rect_h (sceneRect ?s)"
    by (simp_all add: firstView_def)
  have e: "lastSpawnPos ?s = \<lparr>xp = 500, yp = 480\<rparr>"
    by (simp add: firstView_def)
  have f: "winCircle secondView = Some \<lparr>rect_x = 200, rect_y = 60, rect_w = 30, rect_h = 30\<rparr>"
    by (simp add: secondView_def)
  show ?thesis
    using a b c generateLevel_secondView
      goal_far_in_upper_half [OF a b generateLevel_secondView c d]
    unfolding e f by simp
qed

text \<open>
  Claim C8, amended.  As it is stated the claim fails in one point: the platform is not
  centred on the spawn point (see the theorem after the witness below).  What holds is
  this.  In the first branch of \<^verbatim>\<open>generateLevel\<close> (level 0, or no spawn anchor), for any
  scene that starts at the origin: the new level has exactly one platform, 100 wide and
  10 high, directly beneath the player standing at the spawn point; its top edge is the
  bottom edge of the player there, and it reaches from 40 left of the spawn point to 60
  right of it, so that its middle is 10 to the right of the spawn point, under the middle
  of the player, which is 20 wide; the spawn point is the horizontal middle of the scene,
  one player height above its bottom; the goal is 100 to the left of the spawn point and
  50 above the bottom of the scene.  There is no spike.
\<close>

theorem first_level_layout:
  assumes "level s = 0 \<or> isNull (lastSpawnPos s)"
    and "rect_x (sceneRect s) = 0" and "rect_y (sceneRect s) = 0"
  shows "\<exists>s' spawnPos p.
           generateLevel s = Some s' \<and> player s' = spawnPos \<and> lastSpawnPos s' = spawnPos \<and>
           xp spawnPos = (rect_left (sceneRect s) + rect_right (sceneRect s)) / 2 \<and>
           yp spawnPos = rect_bottom (sceneRect s) - rect_h playerItemRect \<and>
           platforms s' = [p] \<and> rect_w p = 100 \<and> rect_h p = 10 \<and>
           rect_top p = yp spawnPos + rect_h playerItemRect \<and>
           rect_left p = xp spawnPos - 40 \<and> rect_right p = xp spawnPos + 60 \<and>
           (rect_left p + rect_right p) / 2 = xp spawnPos + 10 \<and>
           (rect_left p + rect_right p) / 2 = xp spawnPos + rect_w playerItemRect / 2 \<and>
           redTriangles s' = [] \<and>
           winCircle s' = Some \<lparr>rect_x = xp spawnPos - 100, rect_y = rect_bottom (sceneRect s) - 50,
                                 rect_w = 30, rect_h = 30\<rparr>"
proof -
  let ?s0 = "s\<lparr>winCircle := None, redTriangles := [], platforms := [], gameOverText := None\<rparr>"
  let ?s' = "updateHUD (firstLevel ?s0)"
  let ?sp = "\<lparr>xp = rect_w (sceneRect s) / 2, yp = rect_h (sceneRect s) - 20\<rparr>"
  let ?p = "\<lparr>rect_x = rect_w (sceneRect s) / 2 - 40, rect_y = rect_h (sceneRect s), rect_w = 100, rect_h = 10\<rparr>"
  have "generateLevel s = Some ?s'"
    using assms(1) by (simp add: generateLevel_def)
  moreover have "player ?s' = ?sp" "lastSpawnPos ?s' = ?sp"
    by (simp_all add: updateHUD_def firstLevel_def Let_def playerItemRect_def)
  moreover have "xp ?sp = (rect_left (sceneRect s) + rect_right (sceneRect s)) / 2"
    "yp ?sp = rect_bottom (sceneRect s) - rect_h playerItemRect"
    using assms(2,3) by (simp_all add: rect_left_def rect_right_def rect_bottom_def playerItemRect_def)
  moreover have "platforms ?s' = [?p]" "redTriangles ?s' = []"
    by (simp_all add: updateHUD_def firstLevel_def Let_def playerItemRect_def)
  moreover have "rect_w ?p = 100" "rect_h ?p = 10"
    "rect_top ?p = yp ?sp + rect_h playerItemRect" "rect_left ?p = xp ?sp - 40"
    "rect_right ?p = xp ?sp + 60" "(rect_left ?p + rect_right ?p) / 2 = xp ?sp + 10"
    "(rect_left ?p + rect_right ?p) / 2 = xp ?sp + rect_w playerItemRect / 2"
    by (simp_all add: rect_top_def rect_left_def rect_right_def playerItemRect_def)
  moreover have "winCircle ?s' = Some \<lparr>rect_x = xp ?sp - 100, rect_y = rect_bottom (sceneRect s) - 50,
                                 rect_w = 30, rect_h = 30\<rparr>"
    using assms(3) by (simp add: updateHUD_def firstLevel_def Let_def rect_bottom_def)
  ultimately show ?thesis by blast
qed

theorem first_level_layout_witness:
  "(level newView = 0 \<or> isNull (lastSpawnPos newView)) \<and>
   rect_x (sceneRect newView) = 0 \<and> rect_y (sceneRect newView) = 0 \<and>
   generateLevel newView = Some firstView \<and>
   player firstView = \<lparr>xp = 500, yp = 480\<rparr> \<and>
   platforms firstView = [\<lparr>rect_x = 460, rect_y = 500, rect_w = 100, rect_h = 10\<rparr>] \<and>
   winCircle firstView = Some \<lparr>rect_x = 400, rect_y = 450, rect_w = 30, rect_h = 30\<rparr>"
proof -
  have a: "level newView = 0 \<or> isNull (lastSpawnPos newView)" by (simp add: newView_def)
  have b: "rect_x (sceneRect newView) = 0" "rect_y (sceneRect newView) = 0"
    by (simp_all add: newView_def)
  show ?thesis
    using a b generateLevel_firstView first_level_layout [OF a b]
    by (simp add: firstView_def)
qed

text \<open>
  Claim C8 as it is stated, refuted on the scene of \<^verbatim>\<open>main\<close>: the first level has its spawn
  point at 500 and its platform from 460 to 560, whose middle is 510.
\<close>

theorem first_level_platform_off_centre:
  "level newView = 0 \<and>
   generateLevel newView = Some firstView \<and>
   lastSpawnPos firstView = \<lparr>xp = 500, yp = 480\<rparr> \<and>
   platforms firstView = [\<lparr>rect_x = 460, rect_y = 500, rect_w = 100, rect_h = 10\<rparr>] \<and>
   (rect_left \<lparr>rect_x = 460, rect_y = 500, rect_w = 100, rect_h = 10\<rparr> +
    rect_right \<lparr>rect_x = 460, rect_y = 500, rect_w = 100, rect_h = 10\<rparr>) / 2 = 510 \<and>
   (rect_left \<lparr>rect_x = 460, rect_y = 500, rect_w = 100, rect_h = 10\<rparr> +
    rect_right \<lparr>rect_x = 460, rect_y = 500, rect_w = 100, rect_h = 10\<rparr>) / 2
     \<noteq> xp (lastSpawnPos firstView)"
  using generateLevel_firstView
  by (simp add: newView_def firstView_def rect_left_def rect_right_def)

section \<open>Level generation: enough draws\<close>

text \<open>
  The rejection loops have no bound on their rounds.  They end as soon as an accepted
  sample is drawn: a list of draws that ends with enough draws accepted everywhere lets
  the generator return, whatever draws come before them.
\<close>

lemma spare_all: "\<forall>v \<in> set us. good v \<Longrightarrow> spare good us = length us"
proof -
  assume "\<forall>v \<in> set us. good v"
  then have "takeWhile good (rev us) = rev us" by simp
  then show ?thesis unfolding spare_def by (simp only: length_rev)
qed

lemma spare_Cons:
  "spare good (u # us) =
     (if good u \<and> (\<forall>v \<in> set us. good v) then Suc (length us) else spare good us)"
proof (cases "\<forall>v \<in> set us. good v")
  case True
  then have "takeWhile good (rev us @ [u]) = rev us @ takeWhile good [u]"
    by (intro takeWhile_append2) simp
  then have "spare good (u # us) = length us + length (takeWhile good [u])"
    by (simp add: spare_def)
  with True spare_all [OF True] show ?thesis by simp
next
  case False
  then have "\<exists>v \<in> set (rev us). \<not> good v" by simp
  then obtain v where "v \<in> set (rev us)" "\<not> good v" by blast
  then have "takeWhile good (rev us @ [u]) = takeWhile good (rev us)"
    by (rule takeWhile_append1)
  with False show ?thesis by (auto simp: spare_def)
qed

lemma spare_le_length: "spare good us \<le> length us"
  using length_takeWhile_le [of good "rev us"] by (simp add: spare_def)

lemma spare_tail: "spare good (u # us) \<le> Suc (spare good us)"
  by (simp add: spare_Cons spare_all)

lemma spare_rejected: "\<not> good u \<Longrightarrow> spare good (u # us) = spare good us"
  by (simp add: spare_Cons)

lemma spare_append_replicate: "good x \<Longrightarrow> n \<le> spare good (us @ replicate n x)"
proof -
  assume "good x"
  then have "takeWhile good (replicate n x @ rev us) = replicate n x @ takeWhile good (rev us)"
    by (intro takeWhile_append2) simp
  then show ?thesis by (simp add: spare_def)
qed

lemma goodDraw_far:
  assumes "goodDraw sceneBounds spawnPos u"
  shows "\<not> lineLength spawnPos \<lparr>xp = boundedReal (rect_w sceneBounds) u, yp = y\<rparr> < 150"
proof -
  let ?dx = "boundedReal (rect_w sceneBounds) u - xp spawnPos"
  have "150 \<le> \<bar>?dx\<bar>" using assms by (simp add: goodDraw_def)
  also have "\<bar>?dx\<bar> \<le> sqrt (?dx\<^sup>2 + (y - yp spawnPos)\<^sup>2)" by (rule real_sqrt_ge_abs1)
  finally show ?thesis by (simp add: lineLength_def)
qed

lemma goodDraw_outside:
  assumes "goodDraw sceneBounds spawnPos u"
  shows "\<not> (\<bar>boundedReal (rect_w sceneBounds - 80) u - xp spawnPos\<bar> < 100 \<and> \<bar>y - yp spawnPos\<bar> < 80)"
  using assms by (simp add: goodDraw_def)

text \<open>When every draw is accepted the goal takes the first two.\<close>

lemma sampleWinPos_all_good:
  assumes "\<forall>v \<in> set us. goodDraw sceneBounds spawnPos v" and "2 \<le> length us"
  shows "\<exists>winPos. sampleWinPos sceneBounds spawnPos us = Some (winPos, drop 2 us)"
proof -
  from assms(2) obtain u1 u2 rest where us: "us = u1 # u2 # rest"
    by (cases us; cases "tl us") auto
  with assms(1) have "goodDraw sceneBounds spawnPos u1" by simp
  from goodDraw_far [OF this] show ?thesis
    by (simp add: us Let_def)
qed

lemma sampleWinPos_returns:
  "n + 3 \<le> spare (goodDraw sceneBounds spawnPos) us \<Longrightarrow>
     \<exists>winPos r. sampleWinPos sceneBounds spawnPos us = Some (winPos, r) \<and>
        n \<le> spare (goodDraw sceneBounds spawnPos) r \<and> set r \<subseteq> set us"
proof (induction sceneBounds spawnPos us rule: sampleWinPos.induct)
  case (1 sceneBounds spawnPos u1 u2 us)
  let ?good = "goodDraw sceneBounds spawnPos"
  let ?winPos = "\<lparr>xp = boundedReal (rect_w sceneBounds) u1,
                  yp = boundedReal (rect_h sceneBounds / 2) u2\<rparr>"
  show ?case
  proof (cases "lineLength spawnPos ?winPos < 150")
    case False
    then have "sampleWinPos sceneBounds spawnPos (u1 # u2 # us) = Some (?winPos, us)"
      by (simp add: Let_def)
    moreover have "spare ?good (u1 # u2 # us) \<le> Suc (Suc (spare ?good us))"
      using spare_tail [of ?good u1 "u2 # us"] spare_tail [of ?good u2 us] by simp
    with "1.prems" have "n \<le> spare ?good us" by simp
    ultimately show ?thesis by auto
  next
    case True
    then have u1: "\<not> ?good u1" using goodDraw_far [of sceneBounds spawnPos u1] by blast
    then have eq: "spare ?good (u1 # u2 # us) = spare ?good (u2 # us)"
      by (rule spare_rejected)
    from True have rec: "sampleWinPos sceneBounds spawnPos (u1 # u2 # us)
                           = sampleWinPos sceneBounds spawnPos us"
      by (simp add: Let_def)
    show ?thesis
    proof (cases "?good u2 \<and> (\<forall>v \<in> set us. ?good v)")
      case True
      then have "spare ?good (u2 # us) = Suc (length us)" by (simp add: spare_Cons)
      with "1.prems" eq have len: "n + 2 \<le> length us" by simp
      with True sampleWinPos_all_good [of us sceneBounds spawnPos] obtain winPos where
        "sampleWinPos sceneBounds spawnPos us = Some (winPos, drop 2 us)" by auto
      moreover have "spare ?good (drop 2 us) = length (drop 2 us)"
        using True by (intro spare_all) (auto dest: in_set_dropD)
      with len have "n \<le> spare ?good (drop 2 us)" by simp
      moreover have "set (drop 2 us) \<subseteq> set (u1 # u2 # us)"
        by (auto dest: in_set_dropD)
      ultimately show ?thesis unfolding rec by blast
    next
      case False
      then have "spare ?good (u2 # us) = spare ?good us" by (auto simp: spare_Cons)
      with "1.prems" eq have "n + 3 \<le> spare ?good us" by simp
      from "1.IH" [OF refl \<open>lineLength spawnPos ?winPos < 150\<close> this] obtain winPos r where
        "sampleWinPos sceneBounds spawnPos us = Some (winPos, r)"
        "n \<le> spare ?good r" "set r \<subseteq> set us"
        by blast
      then show ?thesis unfolding rec by auto
    qed
  qed
qed (auto simp: spare_def split: if_splits)

lemma samplePlatformX_returns:
  "Suc n \<le> spare (goodDraw sceneBounds spawnPos) us \<Longrightarrow>
     \<exists>x r. samplePlatformX sceneBounds spawnPos y us = Some (x, r) \<and>
        n \<le> spare (goodDraw sceneBounds spawnPos) r \<and> set r \<subseteq> set us"
proof (induction sceneBounds spawnPos y us rule: samplePlatformX.induct)
  case (1 sceneBounds spawnPos y u us)
  let ?good = "goodDraw sceneBounds spawnPos"
  let ?x = "boundedReal (rect_w sceneBounds - 80) u"
  show ?case
  proof (cases "\<bar>?x - xp spawnPos\<bar> < 100 \<and> \<bar>y - yp spawnPos\<bar> < 80")
    case False
    then have "samplePlatformX sceneBounds spawnPos y (u # us) = Some (?x, us)"
      by (auto simp: Let_def)
    moreover have "n \<le> spare ?good us"
      using "1.prems" spare_tail [of ?good u us] by simp
    ultimately show ?thesis by auto
  next
    case True
    then have "\<not> ?good u" using goodDraw_outside [of sceneBounds spawnPos u y] by blast
    then have "spare ?good (u # us) = spare ?good us" by (rule spare_rejected)
    with "1.prems" have "Suc n \<le> spare ?good us" by simp
    from "1.IH" [OF refl True this] obtain x r where
      "samplePlatformX sceneBounds spawnPos y us = Some (x, r)"
      "n \<le> spare ?good r" "set r \<subseteq> set us"
      by blast
    with True show ?thesis by (auto simp: Let_def)
  qed
next
  case (2 sceneBounds spawnPos y)
  then show ?case using spare_le_length [of "goodDraw sceneBounds spawnPos" "[]"] by simp
qed

lemma drawInt_returns:
  assumes "Suc n \<le> spare good us"
  shows "\<exists>u r. u \<in> set us \<and> drawInt lowest highest us = Some (boundedInt lowest highest u, r) \<and>
           n \<le> spare good r \<and> set r \<subseteq> set us"
proof (cases us)
  case Nil
  with assms show ?thesis using spare_le_length [of good "[]"] by simp
next
  case (Cons u r)
  with assms spare_tail [of good u r] have "n \<le> spare good r" by simp
  with Cons show ?thesis by auto
qed

lemma pathPlatform_returns:
  assumes "n + 3 \<le> spare (goodDraw sceneBounds spawnPos) (rng s)"
  shows "\<exists>s'. pathPlatform sceneBounds spawnPos stepY i s = Some s' \<and>
           n \<le> spare (goodDraw sceneBounds spawnPos) (rng s') \<and> set (rng s') \<subseteq> set (rng s)"
proof -
  let ?good = "goodDraw sceneBounds spawnPos"
  let ?y = "yp spawnPos - real_of_int i * stepY"
  from assms have "Suc (n + 2) \<le> spare ?good (rng s)" by simp
  from samplePlatformX_returns [OF this, of ?y] obtain x r1 where
    x: "samplePlatformX sceneBounds spawnPos ?y (rng s) = Some (x, r1)"
    and r1: "n + 2 \<le> spare ?good r1" "set r1 \<subseteq> set (rng s)"
    by blast
  from r1(1) have "Suc (n + 1) \<le> spare ?good r1" by simp
  from drawInt_returns [OF this, of 0 100] obtain u r2 where
    c: "drawInt 0 100 r1 = Some (boundedInt 0 100 u, r2)"
    and r2: "n + 1 \<le> spare ?good r2" "set r2 \<subseteq> set r1"
    by blast
  show ?thesis
  proof (cases "boundedInt 0 100 u < 40")
    case True
    from r2(1) have "Suc n \<le> spare ?good r2" by simp
    from drawInt_returns [OF this, of 10 70] obtain v r3 where
      o: "drawInt 10 70 r2 = Some (boundedInt 10 70 v, r3)"
      and r3: "n \<le> spare ?good r3" "set r3 \<subseteq> set r2"
      by blast
    from x c o True r1 r2 r3 show ?thesis
      by (auto simp: pathPlatform_def Let_def)
  next
    case False
    from r2(1) have "n \<le> spare ?good r2" by simp
    with x c False r1 r2 show ?thesis
      by (auto simp: pathPlatform_def Let_def)
  qed
qed

lemma pathPlatforms_returns:
  "n + 3 * nat (numPlatforms - i) \<le> spare (goodDraw sceneBounds spawnPos) (rng s) \<Longrightarrow>
     \<exists>s'. pathPlatforms sceneBounds spawnPos stepY i s = Some s' \<and>
        n \<le> spare (goodDraw sceneBounds spawnPos) (rng s') \<and> set (rng s') \<subseteq> set (rng s)"
proof (induction sceneBounds spawnPos stepY i s rule: pathPlatforms.induct)
  case (1 sceneBounds spawnPos stepY i s)
  let ?good = "goodDraw sceneBounds spawnPos"
  show ?case
  proof (cases "i < numPlatforms")
    case False
    with "1.prems" show ?thesis by (simp add: pathPlatforms.simps)
  next
    case True
    then have "3 * nat (numPlatforms - i) = 3 * nat (numPlatforms - (i + 1)) + 3"
      by (simp add: nat_diff_distrib)
    with "1.prems" have "(n + 3 * nat (numPlatforms - (i + 1))) + 3 \<le> spare ?good (rng s)"
      by simp
    from pathPlatform_returns [OF this] obtain s1 where
      s1: "pathPlatform sceneBounds spawnPos stepY i s = Some s1"
      and r1: "n + 3 * nat (numPlatforms - (i + 1)) \<le> spare ?good (rng s1)"
        "set (rng s1) \<subseteq> set (rng s)"
      by blast
    from "1.IH" [OF True s1 r1(1)] obtain s' where
      "pathPlatforms sceneBounds spawnPos stepY (i + 1) s1 = Some s'"
      "n \<le> spare ?good (rng s')" "set (rng s') \<subseteq> set (rng s1)"
      by blast
    with True s1 r1(2) show ?thesis
      by (subst pathPlatforms.simps) auto
  qed
qed

lemma safePlatform_returns:
  assumes "n + 2 \<le> spare good (rng s)"
  shows "\<exists>s'. safePlatform sceneBounds winPos s = Some s' \<and>
           n \<le> spare good (rng s') \<and> set (rng s') \<subseteq> set (rng s)"
proof -
  from assms have "Suc (n + 1) \<le> spare good (rng s)" by simp
  from drawInt_returns [OF this, of "- 60" 60] obtain u r1 where
    a: "drawInt (- 60) 60 (rng s) = Some (boundedInt (- 60) 60 u, r1)"
    and r1: "n + 1 \<le> spare good r1" "set r1 \<subseteq> set (rng s)"
    by blast
  from r1(1) have "Suc n \<le> spare good r1" by simp
  from drawInt_returns [OF this, of 0 40] obtain v r2 where
    b: "drawInt 0 40 r1 = Some (boundedInt 0 40 v, r2)"
    and r2: "n \<le> spare good r2" "set r2 \<subseteq> set r1"
    by blast
  from a b r1 r2 show ?thesis
    by (auto simp: safePlatform_def Let_def)
qed

lemma safePlatformsLoop_returns:
  "n + 2 * nat (k - i) \<le> spare good (rng s) \<Longrightarrow>
     \<exists>s'. safePlatformsLoop sceneBounds winPos k i s = Some s' \<and>
        n \<le> spare good (rng s') \<and> set (rng s') \<subseteq> set (rng s)"
proof (induction sceneBounds winPos k i s rule: safePlatformsLoop.induct)
  case (1 sceneBounds winPos k i s)
  show ?case
  proof (cases "i < k")
    case False
    with "1.prems" show ?thesis by (simp add: safePlatformsLoop.simps)
  next
    case True
    then have "2 * nat (k - i) = 2 * nat (k - (i + 1)) + 2"
      by (simp add: nat_diff_distrib)
    with "1.prems" have "(n + 2 * nat (k - (i + 1))) + 2 \<le> spare good (rng s)" by simp
    from safePlatform_returns [OF this] obtain s1 where
      s1: "safePlatform sceneBounds winPos s = Some s1"
      and r1: "n + 2 * nat (k - (i + 1)) \<le> spare good (rng s1)" "set (rng s1) \<subseteq> set (rng s)"
      by blast
    from "1.IH" [OF True s1 r1(1)] obtain s' where
      "safePlatformsLoop sceneBounds winPos k (i + 1) s1 = Some s'"
      "n \<le> spare good (rng s')" "set (rng s') \<subseteq> set (rng s1)"
      by blast
    with True s1 r1(2) show ?thesis
      by (subst safePlatformsLoop.simps) auto
  qed
qed

lemma boundedInt_2_4:
  assumes "0 \<le> u" and "u < 1"
  shows "boundedInt 2 4 u \<le> 3"
proof -
  from assms have "u * 2 < 2" by simp
  then have "\<lfloor>u * 2\<rfloor> < 2" by (simp add: floor_less_iff)
  then show ?thesis by (simp add: boundedInt_def)
qed

text \<open>
  The draws that the generator needs at most once the accepted ones have begun: 3 for
  the goal, 3 for each of the 14 path platforms, 1 for the number of safe platforms and
  2 for each of at most 3 of them.
\<close>

lemma randomLevel_returns:
  assumes "unitDraws (rng s)"
    and "52 \<le> spare (goodDraw (sceneRect s) (lastSpawnPos s)) (rng s)"
  shows "\<exists>s'. randomLevel s = Some s'"
proof -
  let ?sb = "sceneRect s" and ?sp = "lastSpawnPos s"
  let ?good = "goodDraw ?sb ?sp"
  from assms(2) have "49 + 3 \<le> spare ?good (rng s)" by simp
  from sampleWinPos_returns [OF this] obtain winPos r1 where
    w: "sampleWinPos ?sb ?sp (rng s) = Some (winPos, r1)"
    and r1: "49 \<le> spare ?good r1" "set r1 \<subseteq> set (rng s)"
    by blast
  let ?s1 = "s\<lparr>winCircle := Some \<lparr>rect_x = xp winPos, rect_y = yp winPos, rect_w = 30, rect_h = 30\<rparr>,
               rng := r1\<rparr>"
  let ?stepY = "(yp ?sp - yp winPos) / real_of_int numPlatforms"
  from r1(1) have "7 + 3 * nat (numPlatforms - 0) \<le> spare ?good (rng ?s1)"
    by (simp add: numPlatforms_def)
  from pathPlatforms_returns [OF this] obtain s2 where
    s2: "pathPlatforms ?sb ?sp ?stepY 0 ?s1 = Some s2"
    and r2: "7 \<le> spare ?good (rng s2)" "set (rng s2) \<subseteq> set (rng ?s1)"
    by blast
  from r2(1) have "Suc 6 \<le> spare ?good (rng s2)" by simp
  from drawInt_returns [OF this, of 2 4] obtain u r3 where
    u: "u \<in> set (rng s2)"
    and k: "drawInt 2 4 (rng s2) = Some (boundedInt 2 4 u, r3)"
    and r3: "6 \<le> spare ?good r3"
    by blast
  from u r2(2) r1(2) have "u \<in> set (rng s)" by auto
  with assms(1) have "0 \<le> u" "u < 1" by (auto simp: unitDraws_def list_all_iff)
  then have "boundedInt 2 4 u \<le> 3" by (rule boundedInt_2_4)
  then have "2 * nat (boundedInt 2 4 u - 0) \<le> 6" by simp
  with r3 have "0 + 2 * nat (boundedInt 2 4 u - 0) \<le> spare ?good (rng (s2\<lparr>rng := r3\<rparr>))"
    by simp
  from safePlatformsLoop_returns [OF this] obtain s3 where
    s3: "safePlatformsLoop ?sb winPos (boundedInt 2 4 u) 0 (s2\<lparr>rng := r3\<rparr>) = Some s3"
    by blast
  from w s2 k s3 show ?thesis
    by (simp add: randomLevel_def Let_def)
qed

lemma generateLevel_returns:
  assumes "unitDraws (rng s)"
    and "52 \<le> spare (goodDraw (sceneRect s) (lastSpawnPos s)) (rng s)"
  shows "\<exists>s'. generateLevel s = Some s'"
proof (cases "level s = 0 \<or> isNull (lastSpawnPos s)")
  case True
  then show ?thesis by (simp add: generateLevel_def)
next
  case False
  let ?s0 = "s\<lparr>winCircle := None, redTriangles := [], platforms := [], gameOverText := None\<rparr>"
  from assms have "unitDraws (rng ?s0)"
    "52 \<le> spare (goodDraw (sceneRect ?s0) (lastSpawnPos ?s0)) (rng ?s0)"
    by simp_all
  from randomLevel_returns [OF this] obtain g where "randomLevel ?s0 = Some g" by blast
  with False show ?thesis by (simp add: generateLevel_def)
qed

section \<open>The tick: properties\<close>

lemma wrap32_id: "- 2147483648 \<le> i \<Longrightarrow> i < 2147483648 \<Longrightarrow> wrap32 i = i"
  by (simp add: wrap32_def)

lemma landing_none:
  "\<forall>p \<in> set ps. \<not> landsOn env cur m p \<Longrightarrow> landing env cur ps m = m"
  by (induction ps) simp_all

lemma landing_first:
  "\<forall>q \<in> set before. \<not> landsOn env cur m q \<Longrightarrow> landsOn env cur m p \<Longrightarrow>
     landing env cur (before @ p # after) m = snapTo env p m"
  by (induction before) (simp_all add: snapTo_def)

lemma landing_some:
  "\<exists>p \<in> set ps. landsOn env cur m p \<Longrightarrow>
     \<exists>q \<in> set ps. landsOn env cur m q \<and> landing env cur ps m = snapTo env q m"
  by (induction ps) (auto simp: snapTo_def)

lemma moveSideways_yp [simp]: "yp (moveSideways keys pos) = yp pos"
  by (simp add: moveSideways_def Let_def)

lemma currentPos_yp [simp]: "yp (currentPos s) = yp (player s)"
  by (simp add: currentPos_def)

lemma checkSpikes_hit:
  "\<exists>t \<in> set ts. collidesPolygon env (player s) t \<Longrightarrow>
     checkSpikes env ts s = s\<lparr>deaths := deaths s + 1, player := lastSpawnPos s\<rparr>"
  by (induction ts) auto

lemma checkSpikes_miss:
  "\<forall>t \<in> set ts. \<not> collidesPolygon env (player s) t \<Longrightarrow> checkSpikes env ts s = s"
  by (induction ts) auto

lemma checkSpikes_cases:
  "checkSpikes env ts s = s \<or> checkSpikes env ts s = s\<lparr>deaths := deaths s + 1, player := lastSpawnPos s\<rparr>"
  by (induction ts) auto

lemma checkSpikes_velocity [simp]:
  "verticalVelocity (checkSpikes env ts s) = verticalVelocity s"
  using checkSpikes_cases [of env ts s] by auto

lemma checkSpikes_level [simp]: "level (checkSpikes env ts s) = level s"
  using checkSpikes_cases [of env ts s] by auto

lemma generateLevel_frame:
  assumes "generateLevel s = Some s'"
  shows "verticalVelocity s' = verticalVelocity s" and "deaths s' = deaths s"
    and "level s' = level s" and "keysPressed s' = keysPressed s"
    and "sceneRect s' = sceneRect s" and "player s' = lastSpawnPos s'"
    and "gameOverText s' = None"
proof -
  have "verticalVelocity s' = verticalVelocity s \<and> deaths s' = deaths s \<and> level s' = level s \<and>
        keysPressed s' = keysPressed s \<and> sceneRect s' = sceneRect s \<and> player s' = lastSpawnPos s' \<and>
        gameOverText s' = None"
  proof (cases "level s = 0 \<or> isNull (lastSpawnPos s)")
    case True
    with assms have "s' = updateHUD (firstLevel
        (s\<lparr>winCircle := None, redTriangles := [], platforms := [], gameOverText := None\<rparr>))"
      by (auto simp: generateLevel_def)
    then show ?thesis by (simp add: updateHUD_def firstLevel_def Let_def)
  next
    case False
    then have "level s \<noteq> 0" "\<not> isNull (lastSpawnPos s)" by simp_all
    from generateLevel_random [OF this assms] obtain winPos :: QPointF and path safe ts r where
      "s' = updateHUD (s\<lparr>gameOverText := None, player := lastSpawnPos s,
                   winCircle := Some \<lparr>rect_x = xp winPos, rect_y = yp winPos, rect_w = 30, rect_h = 30\<rparr>,
                   redTriangles := ts, platforms := path @ safe, rng := r\<rparr>)"
      by blast
    then show ?thesis by (simp add: updateHUD_def)
  qed
  then show "verticalVelocity s' = verticalVelocity s" and "deaths s' = deaths s"
    and "level s' = level s" and "keysPressed s' = keysPressed s"
    and "sceneRect s' = sceneRect s" and "player s' = lastSpawnPos s'"
    and "gameOverText s' = None"
    by simp_all
qed

lemma checkWin_frame:
  assumes "checkWin env s = Some s1"
  shows "verticalVelocity s1 = verticalVelocity s" and "deaths s1 = deaths s"
    and "keysPressed s1 = keysPressed s" and "sceneRect s1 = sceneRect s"
  using assms generateLevel_frame [of "s\<lparr>level := wrap32 (level s + 1)\<rparr>" s1]
  by (auto simp: checkWin_def split: if_splits)

lemma checkWin_untouched: "\<not> reachesGoal env s \<Longrightarrow> checkWin env s = Some s"
  by (simp add: checkWin_def)

lemma updatePosition_playing:
  "deaths s < 10 \<Longrightarrow>
     updatePosition env s =
       map_option (\<lambda>s1. updateHUD (checkSpikes env (redTriangles s1) s1))
         (checkWin env (movePlayer env s))"
  by (cases "checkWin env (movePlayer env s)") (simp_all add: updatePosition_def)

lemma updatePosition_untouched:
  "deaths s < 10 \<Longrightarrow> untouched env (movePlayer env s) \<Longrightarrow>
     updatePosition env s = Some (updateHUD (movePlayer env s))"
  by (simp add: updatePosition_playing untouched_def checkWin_untouched checkSpikes_miss)

lemma updatePosition_velocity:
  assumes "deaths s < 10" and "updatePosition env s = Some s'"
  shows "verticalVelocity s' = verticalVelocity (movePlayer env s)"
proof -
  from assms obtain s1 where s1: "checkWin env (movePlayer env s) = Some s1"
    and s': "s' = updateHUD (checkSpikes env (redTriangles s1) s1)"
    by (auto simp: updatePosition_playing)
  show ?thesis
    unfolding s' using checkWin_frame(1) [OF s1] by (simp add: updateHUD_def)
qed

lemma movePlayer_frame [simp]:
  "deaths (movePlayer env s) = deaths s" "level (movePlayer env s) = level s"
  "platforms (movePlayer env s) = platforms s" "redTriangles (movePlayer env s) = redTriangles s"
  "keysPressed (movePlayer env s) = keysPressed s" "sceneRect (movePlayer env s) = sceneRect s"
  "winCircle (movePlayer env s) = winCircle s" "lastSpawnPos (movePlayer env s) = lastSpawnPos s"
  "gameOverText (movePlayer env s) = gameOverText s"
  by (simp_all add: movePlayer_def)

lemma movePlayer_forgets_spikes:
  "movePlayer env (s\<lparr>redTriangles := old\<rparr>) = (movePlayer env s)\<lparr>redTriangles := old\<rparr>"
  by (simp add: movePlayer_def resolve_def grounded_def fall_def currentPos_def)

lemma reachesGoal_forgets_spikes [simp]:
  "reachesGoal env (s\<lparr>redTriangles := old\<rparr>) = reachesGoal env s"
  by (cases "winCircle s") (simp_all add: reachesGoal_def)

lemma floorClamp_yp:
  "yp (nextPos (floorClamp env sceneBounds m)) =
     min (yp (nextPos m)) (rect_bottom sceneBounds - rect_h (playerRect env))"
  by (simp add: floorClamp_def hitsFloor_def)

lemma updateHUD_fields [simp]:
  "player (updateHUD s) = player s" "winCircle (updateHUD s) = winCircle s"
  "redTriangles (updateHUD s) = redTriangles s" "platforms (updateHUD s) = platforms s"
  "keysPressed (updateHUD s) = keysPressed s" "verticalVelocity (updateHUD s) = verticalVelocity s"
  "deaths (updateHUD s) = deaths s" "level (updateHUD s) = level s"
  "lastSpawnPos (updateHUD s) = lastSpawnPos s" "gameOverText (updateHUD s) = gameOverText s"
  "sceneRect (updateHUD s) = sceneRect s" "rng (updateHUD s) = rng s"
  by (simp_all add: updateHUD_def)

lemma showGameOver_fields [simp]:
  "player (showGameOver s) = player s" "winCircle (showGameOver s) = winCircle s"
  "redTriangles (showGameOver s) = redTriangles s" "platforms (showGameOver s) = platforms s"
  "keysPressed (showGameOver s) = keysPressed s" "verticalVelocity (showGameOver s) = verticalVelocity s"
  "deaths (showGameOver s) = deaths s" "level (showGameOver s) = level s"
  "lastSpawnPos (showGameOver s) = lastSpawnPos s" "livesText (showGameOver s) = livesText s"
  "levelsText (showGameOver s) = levelsText s"
  "sceneRect (showGameOver s) = sceneRect s" "rng (showGameOver s) = rng s"
  by (simp_all add: showGameOver_def)

text \<open>What the tick reads of the view to move the player.\<close>

lemma fall_cong:
  "player s' = player s \<Longrightarrow> keysPressed s' = keysPressed s \<Longrightarrow>
   verticalVelocity s' = verticalVelocity s \<Longrightarrow> fall s' = fall s"
  by (simp add: fall_def currentPos_def)

lemma untouched_cong:
  "player s' = player s \<Longrightarrow> winCircle s' = winCircle s \<Longrightarrow> redTriangles s' = redTriangles s \<Longrightarrow>
   untouched env s' = untouched env s"
  by (simp add: untouched_def reachesGoal_def split: option.splits)

lemma atRest_cong:
  assumes "player s' = player s" and "keysPressed s' = keysPressed s"
    and "verticalVelocity s' = verticalVelocity s" and "platforms s' = platforms s"
    and "winCircle s' = winCircle s" and "redTriangles s' = redTriangles s"
    and "sceneRect s' = sceneRect s"
  shows "atRest env s' p = atRest env s p"
  unfolding atRest_def fall_cong [OF assms(1-3)] untouched_cong [OF assms(1,5,6)] assms ..


lemma movePlayer_airborne:
  assumes "\<forall>p \<in> set (platforms s). \<not> landsOn env (currentPos s) (fall s) p"
    and "\<not> hitsFloor env (sceneRect s) (fall s)"
  shows "grounded env s = fall s"
    and "verticalVelocity (movePlayer env s) = velocity (fall s)"
    and "yp (player (movePlayer env s)) = yp (nextPos (fall s))"
proof -
  show g: "grounded env s = fall s"
    using assms by (simp add: grounded_def landing_none floorClamp_def)
  have f: "\<not> onGround (fall s)"
    by (simp add: fall_def Let_def)
  show "verticalVelocity (movePlayer env s) = velocity (fall s)"
    using f by (simp add: movePlayer_def resolve_def g jump_def keepInside_def)
  show "yp (player (movePlayer env s)) = yp (nextPos (fall s))"
    using f by (simp add: movePlayer_def resolve_def g jump_def keepInside_def)
qed

text \<open>The movement when the loop over the platforms has snapped the player to \<open>p\<close>.\<close>

lemma resolve_snapped:
  assumes "landing env (currentPos s) (platforms s) (fall s) = snapTo env p (fall s)"
  shows "yp (nextPos (resolve env s))
           = min (rect_top (sceneBoundingRect env p) - rect_h (playerRect env))
                 (rect_bottom (sceneRect s) - rect_h (playerRect env))"
    and "velocity (resolve env s) = (if Key_W \<in> keysPressed s then 20 else 0)"
    and "onGround (resolve env s)"
proof -
  have g: "grounded env s = floorClamp env (sceneRect s) (snapTo env p (fall s))"
    by (simp add: grounded_def assms)
  have y: "yp (nextPos (grounded env s))
           = min (rect_top (sceneBoundingRect env p) - rect_h (playerRect env))
                 (rect_bottom (sceneRect s) - rect_h (playerRect env))"
    unfolding g floorClamp_yp by (simp add: snapTo_def)
  have v: "velocity (grounded env s) = 0" "onGround (grounded env s)"
    unfolding g by (simp_all add: floorClamp_def snapTo_def)
  show "yp (nextPos (resolve env s))
           = min (rect_top (sceneBoundingRect env p) - rect_h (playerRect env))
                 (rect_bottom (sceneRect s) - rect_h (playerRect env))"
    using y by (simp add: resolve_def jump_def keepInside_def)
  show "velocity (resolve env s) = (if Key_W \<in> keysPressed s then 20 else 0)"
    using v by (simp add: resolve_def jump_def keepInside_def)
  show "onGround (resolve env s)"
    using v by (simp add: resolve_def jump_def keepInside_def)
qed

lemma atRestD:
  assumes "atRest env s p"
  shows "p \<in> set (platforms s)"
    and "yp (player s) + rect_h (playerRect env) = rect_top (sceneBoundingRect env p)"
    and "landsOn env (player s) (fall s) p"
    and "verticalVelocity s = 0"
    and "Key_A \<notin> keysPressed s" and "Key_D \<notin> keysPressed s" and "Key_W \<notin> keysPressed s"
    and "\<And>q. q \<in> set (platforms s) \<Longrightarrow> landsOn env (player s) (fall s) q \<Longrightarrow>
           rect_top (sceneBoundingRect env q) = rect_top (sceneBoundingRect env p)"
    and "rect_top (sceneBoundingRect env p) \<le> rect_bottom (sceneRect s)"
    and "rect_left (sceneRect s) \<le> xp (player s)"
    and "xp (player s) \<le> rect_right (sceneRect s) - rect_w (playerRect env)"
    and "untouched env s"
  using assms unfolding atRest_def by blast+

lemma atRest_movePlayer:
  assumes "atRest env s p"
  shows "movePlayer env s = s"
proof -
  note r = atRestD [OF assms]
  have cur: "currentPos s = player s"
    using r(5,6) by (simp add: currentPos_def moveSideways_def)
  have "\<exists>q \<in> set (platforms s). landsOn env (player s) (fall s) q"
    using r(1,3) by blast
  from landing_some [OF this] obtain q where q: "q \<in> set (platforms s)"
    "landsOn env (player s) (fall s) q"
    "landing env (player s) (platforms s) (fall s) = snapTo env q (fall s)"
    by blast
  have top: "rect_top (sceneBoundingRect env q) = rect_top (sceneBoundingRect env p)"
    using q(1,2) by (rule r(8))
  have y: "rect_top (sceneBoundingRect env p) - rect_h (playerRect env) = yp (player s)"
    using r(2) by simp
  have "snapTo env q (fall s) = \<lparr>nextPos = player s, velocity = 0, onGround = True\<rparr>"
    by (simp add: snapTo_def top y fall_def cur Let_def)
  then have l: "landing env (currentPos s) (platforms s) (fall s)
             = \<lparr>nextPos = player s, velocity = 0, onGround = True\<rparr>"
    unfolding cur q(3) .
  have g: "grounded env s = \<lparr>nextPos = player s, velocity = 0, onGround = True\<rparr>"
  proof (cases "hitsFloor env (sceneRect s) \<lparr>nextPos = player s, velocity = 0, onGround = True\<rparr>")
    case True
    then have "yp (player s) = rect_bottom (sceneRect s) - rect_h (playerRect env)"
      using y r(9) by (simp add: hitsFloor_def)
    with True show ?thesis by (simp add: grounded_def l floorClamp_def)
  next
    case False
    then show ?thesis by (simp add: grounded_def l floorClamp_def)
  qed
  have "qBound (rect_left (sceneRect s)) (xp (player s))
          (rect_right (sceneRect s) - rect_w (playerRect env)) = xp (player s)"
    using r(10,11) by (simp add: qBound_def)
  then have "resolve env s = \<lparr>nextPos = player s, velocity = 0, onGround = True\<rparr>"
    using r(7) by (simp add: resolve_def g jump_def keepInside_def)
  then have "movePlayer env s = s\<lparr>player := player s, verticalVelocity := verticalVelocity s\<rparr>"
    using r(4) by (simp add: movePlayer_def)
  then show ?thesis by simp
qed

lemma atRest_tick:
  assumes "atRest env s p"
  shows "\<exists>s'. updatePosition env s = Some s' \<and> atRest env s' p \<and>
           player s' = player s \<and> verticalVelocity s' = verticalVelocity s"
proof (cases "deaths s < 10")
  case True
  from assms have "untouched env s" by (rule atRestD)
  with True have "updatePosition env s = Some (updateHUD s)"
    using updatePosition_untouched [of s env] atRest_movePlayer [OF assms] by simp
  moreover have "atRest env (updateHUD s) p"
    using assms by (subst atRest_cong [of _ s]) simp_all
  ultimately show ?thesis by simp
next
  case False
  let ?s' = "if gameOverText s = None then showGameOver s else s"
  from False have "updatePosition env s = Some ?s'"
    by (simp add: updatePosition_def)
  moreover have "atRest env ?s' p"
    using assms by (subst atRest_cong [of _ s]) simp_all
  ultimately show ?thesis by simp
qed

lemma atRest_ticks:
  "atRest env s p \<Longrightarrow>
     \<exists>s'. run env (replicate n Timeout) s = Some s' \<and> atRest env s' p \<and>
        player s' = player s \<and> verticalVelocity s' = verticalVelocity s"
proof (induction n arbitrary: s)
  case 0
  then show ?case by simp
next
  case (Suc n)
  from atRest_tick [OF Suc.prems] obtain s1 where
    s1: "updatePosition env s = Some s1" "atRest env s1 p"
      "player s1 = player s" "verticalVelocity s1 = verticalVelocity s"
    by blast
  from Suc.IH [OF s1(2)] obtain s' where
    "run env (replicate n Timeout) s1 = Some s'" "atRest env s' p"
    "player s' = player s1" "verticalVelocity s' = verticalVelocity s1"
    by blast
  with s1 show ?case by simp
qed

lemma gameOver_handle:
  assumes "gameOver s"
  shows "\<exists>s'. handle env e s = Some s' \<and> gameOver s' \<and> deaths s' = deaths s \<and>
           level s' = level s \<and> player s' = player s \<and>
           verticalVelocity s' = verticalVelocity s \<and>
           livesText s' = livesText s \<and> levelsText s' = levelsText s \<and>
           (e = Timeout \<or> gameOverText s \<noteq> None \<longrightarrow> gameOverText s' \<noteq> None)"
  using assms by (cases e) (auto simp: gameOver_def updatePosition_def showGameOver_def)

lemma gameOver_run:
  "gameOver s \<Longrightarrow>
     \<exists>s'. run env es s = Some s' \<and> gameOver s' \<and> deaths s' = deaths s \<and>
        level s' = level s \<and> player s' = player s \<and>
        verticalVelocity s' = verticalVelocity s \<and>
        livesText s' = livesText s \<and> levelsText s' = levelsText s \<and>
        (Timeout \<in> set es \<or> gameOverText s \<noteq> None \<longrightarrow> gameOverText s' \<noteq> None)"
proof (induction es arbitrary: s)
  case Nil
  then show ?case by simp
next
  case (Cons e es)
  from gameOver_handle [OF Cons.prems, of env e] obtain s1 where
    s1: "handle env e s = Some s1" "gameOver s1" "deaths s1 = deaths s" "level s1 = level s"
      "player s1 = player s" "verticalVelocity s1 = verticalVelocity s"
      "livesText s1 = livesText s" "levelsText s1 = levelsText s"
      "e = Timeout \<or> gameOverText s \<noteq> None \<longrightarrow> gameOverText s1 \<noteq> None"
    by blast
  from Cons.IH [OF s1(2)] obtain s' where
    s': "run env es s1 = Some s'" "gameOver s'" "deaths s' = deaths s1" "level s' = level s1"
      "player s' = player s1" "verticalVelocity s' = verticalVelocity s1"
      "livesText s' = livesText s1" "levelsText s' = levelsText s1"
      "Timeout \<in> set es \<or> gameOverText s1 \<noteq> None \<longrightarrow> gameOverText s' \<noteq> None"
    by blast
  have "run env (e # es) s = Some s'" using s1(1) s'(1) by simp
  moreover have "Timeout \<in> set (e # es) \<or> gameOverText s \<noteq> None \<longrightarrow> gameOverText s' \<noteq> None"
    using s1(9) s'(9) by auto
  ultimately show ?case
    using s1(3-8) s'(2-8) by (intro exI [of _ s']) simp
qed

lemma number_0: "number 0 = ''0''"
  by (simp add: number_def)

text \<open>The equations that run a tick on a concrete view.\<close>

lemmas tick_defs =
  updatePosition_def movePlayer_def resolve_def grounded_def fall_def currentPos_def
  moveSideways_def landsOn_def intersects_def rectAt_def playerRect_def sceneBoundingRect_def
  boundingRect_def playerItemRect_def floorClamp_def hitsFloor_def jump_def keepInside_def
  qBound_def rect_left_def rect_top_def rect_right_def rect_bottom_def checkWin_def
  reachesGoal_def untouched_def boxEnv_def Key_A_def Key_D_def Key_W_def updateHUD_def number_def
  wrap32_def Let_def

section \<open>The claims about the tick\<close>

text \<open>
  Claim C1, amended.  As it is stated the claim fails: the floor check and the jump check
  of the same tick come after the loop over the platforms (see the two views after the
  witness below).  What holds is this.  In a tick of the running game, let \<open>p\<close> be a
  platform such that the player's rectangle at the tentative next position intersects the
  rectangle of \<open>p\<close>, the vertical velocity (after gravity) is at most 0, and the player's
  current bottom edge is at or above the top edge of \<open>p\<close>; let no platform before \<open>p\<close> in
  the list pass this test.  Then the tick commits the player with its bottom edge on the
  top edge of \<open>p\<close>, or on the bottom of the scene where that is higher; the flag
  \<^verbatim>\<open>onGround\<close> is set; the vertical velocity the tick leaves is 0, or 20 when the jump key
  is held; the platforms after \<open>p\<close> in the list have no influence on the position and the
  velocity; and the tick returns this position unless the player, there, touches the
  goal or a spike.
\<close>

theorem landing_commits_first_platform:
  assumes "deaths s < 10"
    and "platforms s = before @ p # after"
    and "\<forall>q \<in> set before. \<not> landsOn env (currentPos s) (fall s) q"
    and "intersects (rectAt (nextPos (fall s)) (rect_w (playerRect env)) (rect_h (playerRect env)))
           (sceneBoundingRect env p)"
    and "velocity (fall s) \<le> 0"
    and "yp (currentPos s) + rect_h (playerRect env) \<le> rect_top (sceneBoundingRect env p)"
  shows "yp (player (movePlayer env s)) + rect_h (playerRect env)
           = min (rect_top (sceneBoundingRect env p)) (rect_bottom (sceneRect s)) \<and>
         onGround (resolve env s) \<and>
         verticalVelocity (movePlayer env s) = (if Key_W \<in> keysPressed s then 20 else 0) \<and>
         (\<forall>others.
            player (movePlayer env (s\<lparr>platforms := before @ p # others\<rparr>)) = player (movePlayer env s) \<and>
            verticalVelocity (movePlayer env (s\<lparr>platforms := before @ p # others\<rparr>))
              = verticalVelocity (movePlayer env s)) \<and>
         (\<forall>s'. updatePosition env s = Some s' \<longrightarrow>
            verticalVelocity s' = (if Key_W \<in> keysPressed s then 20 else 0)) \<and>
         (untouched env (movePlayer env s) \<longrightarrow>
            updatePosition env s = Some (updateHUD (movePlayer env s)))"
proof -
  from assms(4-6) have p: "landsOn env (currentPos s) (fall s) p"
    by (simp add: landsOn_def Let_def)
  have l: "landing env (currentPos s) (before @ p # others) (fall s) = snapTo env p (fall s)" for others
    using assms(3) p by (rule landing_first)
  have here: "landing env (currentPos s) (platforms s) (fall s) = snapTo env p (fall s)"
    unfolding assms(2) by (rule l)
  note r = resolve_snapped [OF here]
  have y: "yp (player (movePlayer env s)) + rect_h (playerRect env)
           = min (rect_top (sceneBoundingRect env p)) (rect_bottom (sceneRect s))"
    using r(1) by (simp add: movePlayer_def min_def)
  have v: "verticalVelocity (movePlayer env s) = (if Key_W \<in> keysPressed s then 20 else 0)"
    using r(2) by (simp add: movePlayer_def)
  have later: "player (movePlayer env (s\<lparr>platforms := before @ p # others\<rparr>)) = player (movePlayer env s) \<and>
            verticalVelocity (movePlayer env (s\<lparr>platforms := before @ p # others\<rparr>))
              = verticalVelocity (movePlayer env s)" for others
  proof -
    have f: "fall (s\<lparr>platforms := before @ p # others\<rparr>) = fall s"
      "currentPos (s\<lparr>platforms := before @ p # others\<rparr>) = currentPos s"
      by (simp_all add: fall_def currentPos_def)
    have "resolve env (s\<lparr>platforms := before @ p # others\<rparr>)
            = keepInside env (sceneRect s) (jump (keysPressed s)
                (floorClamp env (sceneRect s) (snapTo env p (fall s))))"
      by (simp add: resolve_def grounded_def f l)
    moreover have "resolve env s
            = keepInside env (sceneRect s) (jump (keysPressed s)
                (floorClamp env (sceneRect s) (snapTo env p (fall s))))"
      by (simp add: resolve_def grounded_def here)
    ultimately show ?thesis by (simp add: movePlayer_def)
  qed
  have tick: "verticalVelocity s' = (if Key_W \<in> keysPressed s then 20 else 0)"
    if "updatePosition env s = Some s'" for s'
    using updatePosition_velocity [OF assms(1) that] v by simp
  have same: "updatePosition env s = Some (updateHUD (movePlayer env s))"
    if "untouched env (movePlayer env s)"
    using assms(1) that by (rule updatePosition_untouched)
  show ?thesis
  proof (intro conjI allI impI)
    show "yp (player (movePlayer env s)) + rect_h (playerRect env)
           = min (rect_top (sceneBoundingRect env p)) (rect_bottom (sceneRect s))"
      by (fact y)
    show "onGround (resolve env s)" by (fact r(3))
    show "verticalVelocity (movePlayer env s) = (if Key_W \<in> keysPressed s then 20 else 0)"
      by (fact v)
    show "player (movePlayer env (s\<lparr>platforms := before @ p # others\<rparr>)) = player (movePlayer env s)"
      for others using later [of others] by simp
    show "verticalVelocity (movePlayer env (s\<lparr>platforms := before @ p # others\<rparr>))
              = verticalVelocity (movePlayer env s)"
      for others using later [of others] by simp
    show "verticalVelocity s' = (if Key_W \<in> keysPressed s then 20 else 0)"
      if "updatePosition env s = Some s'" for s'
      using that by (rule tick)
    show "updatePosition env s = Some (updateHUD (movePlayer env s))"
      if "untouched env (movePlayer env s)"
      using that by (rule same)
  qed
qed

theorem landing_commits_first_platform_witness:
  "deaths fallingView < 10 \<and>
   platforms fallingView =
     [\<lparr>rect_x = 100, rect_y = 400, rect_w = 80, rect_h = 10\<rparr>] @
     \<lparr>rect_x = 460, rect_y = 400, rect_w = 80, rect_h = 10\<rparr> #
     [\<lparr>rect_x = 480, rect_y = 399, rect_w = 80, rect_h = 10\<rparr>] \<and>
   \<not> landsOn boxEnv (currentPos fallingView) (fall fallingView)
       \<lparr>rect_x = 100, rect_y = 400, rect_w = 80, rect_h = 10\<rparr> \<and>
   landsOn boxEnv (currentPos fallingView) (fall fallingView)
       \<lparr>rect_x = 460, rect_y = 400, rect_w = 80, rect_h = 10\<rparr> \<and>
   landsOn boxEnv (currentPos fallingView) (fall fallingView)
       \<lparr>rect_x = 480, rect_y = 399, rect_w = 80, rect_h = 10\<rparr> \<and>
   untouched boxEnv (movePlayer boxEnv fallingView) \<and>
   rect_top (sceneBoundingRect boxEnv \<lparr>rect_x = 460, rect_y = 400, rect_w = 80, rect_h = 10\<rparr>) = 799 / 2 \<and>
   yp (player (movePlayer boxEnv fallingView)) + rect_h (playerRect boxEnv) = 799 / 2 \<and>
   verticalVelocity (movePlayer boxEnv fallingView) = 0 \<and>
   updatePosition boxEnv fallingView
     = Some (fallingView\<lparr>player := \<lparr>xp = 500, yp = 757 / 2\<rparr>, verticalVelocity := 0\<rparr>)"
proof -
  let ?a = "\<lparr>rect_x = 100, rect_y = 400, rect_w = 80, rect_h = 10\<rparr>"
  let ?p = "\<lparr>rect_x = 460, rect_y = 400, rect_w = 80, rect_h = 10\<rparr>"
  let ?q = "\<lparr>rect_x = 480, rect_y = 399, rect_w = 80, rect_h = 10\<rparr>"
  have h1: "deaths fallingView < 10" by (simp add: fallingView_def)
  have h2: "platforms fallingView = [?a] @ ?p # [?q]" by (simp add: fallingView_def)
  have a: "\<not> landsOn boxEnv (currentPos fallingView) (fall fallingView) ?a"
    by (simp add: tick_defs fallingView_def)
  then have h3: "\<forall>q \<in> set [?a]. \<not> landsOn boxEnv (currentPos fallingView) (fall fallingView) q"
    by simp
  have h4: "intersects (rectAt (nextPos (fall fallingView)) (rect_w (playerRect boxEnv))
              (rect_h (playerRect boxEnv))) (sceneBoundingRect boxEnv ?p)"
    by (simp add: tick_defs fallingView_def)
  have h5: "velocity (fall fallingView) \<le> 0" by (simp add: tick_defs fallingView_def)
  have h6: "yp (currentPos fallingView) + rect_h (playerRect boxEnv)
              \<le> rect_top (sceneBoundingRect boxEnv ?p)"
    by (simp add: tick_defs fallingView_def)
  have p: "landsOn boxEnv (currentPos fallingView) (fall fallingView) ?p"
    by (simp add: tick_defs fallingView_def)
  have q: "landsOn boxEnv (currentPos fallingView) (fall fallingView) ?q"
    by (simp add: tick_defs fallingView_def)
  have m: "movePlayer boxEnv fallingView
             = fallingView\<lparr>player := \<lparr>xp = 500, yp = 757 / 2\<rparr>, verticalVelocity := 0\<rparr>"
    by (simp add: tick_defs fallingView_def)
  have u: "untouched boxEnv (movePlayer boxEnv fallingView)"
    unfolding m by (simp add: tick_defs fallingView_def)
  have t: "rect_top (sceneBoundingRect boxEnv ?p) = 799 / 2"
    "rect_bottom (sceneRect fallingView) = 500" "keysPressed fallingView = {}"
    by (simp_all add: tick_defs fallingView_def)
  have hud: "updateHUD (fallingView\<lparr>player := \<lparr>xp = 500, yp = 757 / 2\<rparr>, verticalVelocity := 0\<rparr>)
               = fallingView\<lparr>player := \<lparr>xp = 500, yp = 757 / 2\<rparr>, verticalVelocity := 0\<rparr>"
    by (simp add: updateHUD_def number_def fallingView_def)
  from landing_commits_first_platform [OF h1 h2 h3 h4 h5 h6] u
  have "yp (player (movePlayer boxEnv fallingView)) + rect_h (playerRect boxEnv) = 799 / 2"
    and "verticalVelocity (movePlayer boxEnv fallingView) = 0"
    and "updatePosition boxEnv fallingView = Some (updateHUD (movePlayer boxEnv fallingView))"
    unfolding t by simp_all
  then have "yp (player (movePlayer boxEnv fallingView)) + rect_h (playerRect boxEnv) = 799 / 2"
    and "verticalVelocity (movePlayer boxEnv fallingView) = 0"
    and "updatePosition boxEnv fallingView
           = Some (fallingView\<lparr>player := \<lparr>xp = 500, yp = 757 / 2\<rparr>, verticalVelocity := 0\<rparr>)"
    by (simp_all add: m hud)
  with h1 h2 a p q u t(1) show ?thesis by simp
qed

text \<open>
  Claim C1 as it is stated, refuted on two views.  In the first the player falls onto the
  platform at height 400, which passes the landing test, with the jump key held: the tick
  puts the player on the platform and leaves the vertical velocity 20, not 0.  In the
  second the only platform lies one unit below the bottom of the scene and passes the
  landing test: the floor check of the same tick takes the player back to the bottom of
  the scene, half a unit above the top edge of the platform.
\<close>

theorem landing_then_jump_or_floor:
  "deaths (fallingView\<lparr>keysPressed := {Key_W}\<rparr>) < 10 \<and>
   \<not> landsOn boxEnv (currentPos (fallingView\<lparr>keysPressed := {Key_W}\<rparr>))
       (fall (fallingView\<lparr>keysPressed := {Key_W}\<rparr>))
       \<lparr>rect_x = 100, rect_y = 400, rect_w = 80, rect_h = 10\<rparr> \<and>
   landsOn boxEnv (currentPos (fallingView\<lparr>keysPressed := {Key_W}\<rparr>))
       (fall (fallingView\<lparr>keysPressed := {Key_W}\<rparr>))
       \<lparr>rect_x = 460, rect_y = 400, rect_w = 80, rect_h = 10\<rparr> \<and>
   updatePosition boxEnv (fallingView\<lparr>keysPressed := {Key_W}\<rparr>)
     = Some (fallingView\<lparr>keysPressed := {Key_W}, player := \<lparr>xp = 500, yp = 757 / 2\<rparr>,
                         verticalVelocity := 20\<rparr>) \<and>
   deaths lowView < 10 \<and>
   platforms lowView = [\<lparr>rect_x = 460, rect_y = 501, rect_w = 100, rect_h = 10\<rparr>] \<and>
   landsOn boxEnv (currentPos lowView) (fall lowView)
       \<lparr>rect_x = 460, rect_y = 501, rect_w = 100, rect_h = 10\<rparr> \<and>
   rect_top (sceneBoundingRect boxEnv \<lparr>rect_x = 460, rect_y = 501, rect_w = 100, rect_h = 10\<rparr>)
     = 1001 / 2 \<and>
   rect_h (playerRect boxEnv) = 21 \<and>
   map_option player (updatePosition boxEnv lowView) = Some \<lparr>xp = 500, yp = 479\<rparr>"
proof -
  have a: "updatePosition boxEnv (fallingView\<lparr>keysPressed := {Key_W}\<rparr>)
     = Some (fallingView\<lparr>keysPressed := {Key_W}, player := \<lparr>xp = 500, yp = 757 / 2\<rparr>,
                         verticalVelocity := 20\<rparr>)"
    by (simp add: tick_defs fallingView_def)
  have b: "updatePosition boxEnv lowView = Some lowView"
    by (simp add: tick_defs lowView_def firstView_def)
  have c: "\<not> landsOn boxEnv (currentPos (fallingView\<lparr>keysPressed := {Key_W}\<rparr>))
       (fall (fallingView\<lparr>keysPressed := {Key_W}\<rparr>))
       \<lparr>rect_x = 100, rect_y = 400, rect_w = 80, rect_h = 10\<rparr>"
    "landsOn boxEnv (currentPos (fallingView\<lparr>keysPressed := {Key_W}\<rparr>))
       (fall (fallingView\<lparr>keysPressed := {Key_W}\<rparr>))
       \<lparr>rect_x = 460, rect_y = 400, rect_w = 80, rect_h = 10\<rparr>"
    "landsOn boxEnv (currentPos lowView) (fall lowView)
       \<lparr>rect_x = 460, rect_y = 501, rect_w = 100, rect_h = 10\<rparr>"
    by (simp_all add: tick_defs fallingView_def lowView_def firstView_def)
  have d: "rect_top (sceneBoundingRect boxEnv \<lparr>rect_x = 460, rect_y = 501, rect_w = 100, rect_h = 10\<rparr>)
     = 1001 / 2" "rect_h (playerRect boxEnv) = 21"
    by (simp_all add: tick_defs)
  have e: "deaths (fallingView\<lparr>keysPressed := {Key_W}\<rparr>) < 10" "deaths lowView < 10"
    "platforms lowView = [\<lparr>rect_x = 460, rect_y = 501, rect_w = 100, rect_h = 10\<rparr>]"
    "player lowView = \<lparr>xp = 500, yp = 479\<rparr>"
    by (simp_all add: fallingView_def lowView_def firstView_def)
  from c d e show ?thesis by (simp add: a b)
qed




text \<open>
  Claim C7.  In a tick of the running game let \<open>s1\<close> be the view after the movement and
  the goal check (so after the new level, if the goal was reached).  If the player of
  \<open>s1\<close> collides with at least one spike of \<open>s1\<close>, the tick returns, the deaths are one
  more than before the tick however many spikes collide, the player is at the respawn
  anchor of \<open>s1\<close>, and the vertical velocity is the one the movement left; level, spikes
  and platforms are those of \<open>s1\<close>.
\<close>

theorem spike_costs_one_life:
  assumes "deaths s < 10"
    and "checkWin env (movePlayer env s) = Some s1"
    and "\<exists>t \<in> set (redTriangles s1). collidesPolygon env (player s1) t"
  shows "\<exists>s'. updatePosition env s = Some s' \<and>
           deaths s' = deaths s + 1 \<and> player s' = lastSpawnPos s1 \<and>
           verticalVelocity s' = verticalVelocity (movePlayer env s) \<and>
           level s' = level s1 \<and> redTriangles s' = redTriangles s1 \<and> platforms s' = platforms s1"
proof -
  let ?s' = "updateHUD (checkSpikes env (redTriangles s1) s1)"
  have tick: "updatePosition env s = Some ?s'"
    using assms(1,2) by (simp add: updatePosition_playing)
  have hit: "checkSpikes env (redTriangles s1) s1 = s1\<lparr>deaths := deaths s1 + 1, player := lastSpawnPos s1\<rparr>"
    using assms(3) by (rule checkSpikes_hit)
  have "deaths s1 = deaths s" "verticalVelocity s1 = verticalVelocity (movePlayer env s)"
    using checkWin_frame [OF assms(2)] by simp_all
  then have "deaths ?s' = deaths s + 1 \<and> player ?s' = lastSpawnPos s1 \<and>
           verticalVelocity ?s' = verticalVelocity (movePlayer env s) \<and>
           level ?s' = level s1 \<and> redTriangles ?s' = redTriangles s1 \<and> platforms ?s' = platforms s1"
    by (simp add: hit updateHUD_def)
  with tick show ?thesis by blast
qed

theorem spike_costs_one_life_witness:
  "deaths spikedView < 10 \<and>
   checkWin boxEnv (movePlayer boxEnv spikedView) = Some spikedView \<and>
   length (redTriangles spikedView) = 2 \<and>
   list_all (collidesPolygon boxEnv (player spikedView)) (redTriangles spikedView) \<and>
   deaths spikedView = 3 \<and>
   (\<exists>s'. updatePosition boxEnv spikedView = Some s' \<and> deaths s' = 4 \<and>
      player s' = \<lparr>xp = 500, yp = 480\<rparr> \<and> verticalVelocity s' = 0)"
proof -
  have h1: "deaths spikedView < 10" by (simp add: spikedView_def)
  have m: "movePlayer boxEnv spikedView = spikedView"
    by (simp add: tick_defs spikedView_def firstView_def)
  have h2: "checkWin boxEnv (movePlayer boxEnv spikedView) = Some spikedView"
    unfolding m by (simp add: tick_defs spikedView_def firstView_def)
  have c: "list_all (collidesPolygon boxEnv (player spikedView)) (redTriangles spikedView)"
    by (simp add: boxEnv_def spikedView_def)
  have n: "length (redTriangles spikedView) = 2" by (simp add: spikedView_def)
  have h3: "\<exists>t \<in> set (redTriangles spikedView). collidesPolygon boxEnv (player spikedView) t"
    by (simp add: boxEnv_def spikedView_def)
  have v: "deaths spikedView = 3" "lastSpawnPos spikedView = \<lparr>xp = 500, yp = 480\<rparr>"
    "verticalVelocity spikedView = 0"
    by (simp_all add: spikedView_def firstView_def)
  from spike_costs_one_life [OF h1 h2 h3]
  have "\<exists>s'. updatePosition boxEnv spikedView = Some s' \<and> deaths s' = 4 \<and>
      player s' = \<lparr>xp = 500, yp = 480\<rparr> \<and> verticalVelocity s' = 0"
    unfolding m v by auto
  with h1 h2 c n v show ?thesis by simp
qed

text \<open>
  Claim C10.  Take a tick of the running game in which the moved player collides with the
  goal, with a level count below the greatest 32 bit value, and with draws of the unit
  interval that end with 52 draws accepted by the rejection loops (after any number of
  others).  The tick returns.  The level generator has run on the moved view with the
  level incremented, its result \<open>g\<close> has the player at the respawn anchor, and the tick's
  result is \<open>g\<close> after the scan of the spikes of \<open>g\<close> and the update of the display.  A
  life is lost exactly if a spike of \<open>g\<close> collides with the player at the anchor, and the
  result of the tick does not depend on the spikes of the level just completed.
\<close>

theorem win_then_spikes_of_new_level:
  assumes "deaths s < 10"
    and "reachesGoal env (movePlayer env s)"
    and "0 \<le> level s" and "level s < 2147483647"
    and "unitDraws (rng s)"
    and "52 \<le> spare (goodDraw (sceneRect s) (lastSpawnPos s)) (rng s)"
  shows "\<exists>s' g. updatePosition env s = Some s' \<and>
           generateLevel ((movePlayer env s)\<lparr>level := level s + 1\<rparr>) = Some g \<and>
           player g = lastSpawnPos g \<and> level g = level s + 1 \<and>
           s' = updateHUD (checkSpikes env (redTriangles g) g) \<and>
           level s' = level s + 1 \<and>
           deaths s' = deaths s +
             (if \<exists>t \<in> set (redTriangles g). collidesPolygon env (lastSpawnPos g) t then 1 else 0) \<and>
           (\<forall>old. updatePosition env (s\<lparr>redTriangles := old\<rparr>) = Some s')"
proof -
  let ?m = "movePlayer env s"
  have w: "wrap32 (level s + 1) = level s + 1"
    using assms(3,4) by (intro wrap32_id) simp_all
  have "unitDraws (rng (?m\<lparr>level := level s + 1\<rparr>))"
    "52 \<le> spare (goodDraw (sceneRect (?m\<lparr>level := level s + 1\<rparr>))
                    (lastSpawnPos (?m\<lparr>level := level s + 1\<rparr>))) (rng (?m\<lparr>level := level s + 1\<rparr>))"
    using assms(5,6) by (simp_all add: movePlayer_def)
  from generateLevel_returns [OF this] obtain g where
    g: "generateLevel (?m\<lparr>level := level s + 1\<rparr>) = Some g"
    by blast
  define s' where "s' = updateHUD (checkSpikes env (redTriangles g) g)"
  have tick: "updatePosition env s = Some s'"
    using assms(1,2) g by (simp add: updatePosition_playing checkWin_def w s'_def)
  have fr: "player g = lastSpawnPos g" "level g = level s + 1" "deaths g = deaths s"
    using generateLevel_frame [OF g] by simp_all
  have same: "updatePosition env (s\<lparr>redTriangles := old\<rparr>) = Some s'" for old
  proof -
    have "generateLevel ((?m\<lparr>redTriangles := old\<rparr>)\<lparr>level := level s + 1\<rparr>) = Some g"
      using g by (simp add: generateLevel_def)
    then show ?thesis
      using assms(1,2)
      by (simp add: updatePosition_playing movePlayer_forgets_spikes checkWin_def w s'_def)
  qed
  have lev: "level s' = level s + 1"
    using fr(2) by (simp add: s'_def)
  have dead: "deaths s' = deaths s +
             (if \<exists>t \<in> set (redTriangles g). collidesPolygon env (lastSpawnPos g) t then 1 else 0)"
  proof (cases "\<exists>t \<in> set (redTriangles g). collidesPolygon env (player g) t")
    case True
    from checkSpikes_hit [OF True] True show ?thesis
      by (simp add: s'_def fr)
  next
    case False
    then have "checkSpikes env (redTriangles g) g = g"
      by (simp add: checkSpikes_miss)
    with False show ?thesis by (simp add: s'_def fr)
  qed
  show ?thesis
  proof (rule exI [of _ s'], rule exI [of _ g], intro conjI allI)
    show "updatePosition env s = Some s'" by (fact tick)
    show "generateLevel (?m\<lparr>level := level s + 1\<rparr>) = Some g" by (fact g)
    show "player g = lastSpawnPos g" by (fact fr(1))
    show "level g = level s + 1" by (fact fr(2))
    show "s' = updateHUD (checkSpikes env (redTriangles g) g)" by (fact s'_def)
    show "level s' = level s + 1" by (fact lev)
    show "deaths s' = deaths s +
             (if \<exists>t \<in> set (redTriangles g). collidesPolygon env (lastSpawnPos g) t then 1 else 0)"
      by (fact dead)
    show "updatePosition env (s\<lparr>redTriangles := old\<rparr>) = Some s'" for old by (fact same)
  qed
qed

text \<open>
  A tick that wins the first level, run to its end: the third draw is rejected by the
  loop of the first path platform.
\<close>

lemma updatePosition_winningView:
  "updatePosition boxEnv winningView = Some (secondView\<lparr>keysPressed := {Key_A}\<rparr>)"
  by (simp add: tick_defs level_defs winningView_def secondView_def firstView_def draws_def
      cong: bind_option_cong_code)

theorem win_then_spikes_of_new_level_witness:
  "deaths luckyView < 10 \<and>
   reachesGoal boxEnv (movePlayer boxEnv luckyView) \<and>
   level luckyView = 0 \<and>
   unitDraws (rng luckyView) \<and>
   52 \<le> spare (goodDraw (sceneRect luckyView) (lastSpawnPos luckyView)) (rng luckyView) \<and>
   collidesPolygon boxEnv (player (movePlayer boxEnv luckyView))
     [\<lparr>xp = 433, yp = 489\<rparr>, \<lparr>xp = 428, yp = 495\<rparr>, \<lparr>xp = 438, yp = 495\<rparr>] \<and>
   (\<exists>s'. updatePosition boxEnv luckyView = Some s' \<and> level s' = 1 \<and>
      updatePosition boxEnv
        (luckyView\<lparr>redTriangles := [[\<lparr>xp = 433, yp = 489\<rparr>, \<lparr>xp = 428, yp = 495\<rparr>, \<lparr>xp = 438, yp = 495\<rparr>]]\<rparr>)
        = Some s')"
proof -
  let ?old = "[[\<lparr>xp = 433, yp = 489\<rparr>, \<lparr>xp = 428, yp = 495\<rparr>, \<lparr>xp = 438, yp = 495\<rparr>]]"
  have h1: "deaths luckyView < 10" by (simp add: luckyView_def firstView_def)
  have m: "player (movePlayer boxEnv luckyView) = \<lparr>xp = 423, yp = 479\<rparr>"
    by (simp add: tick_defs luckyView_def firstView_def)
  have h2: "reachesGoal boxEnv (movePlayer boxEnv luckyView)"
    by (simp add: tick_defs luckyView_def firstView_def)
  have c: "collidesPolygon boxEnv (player (movePlayer boxEnv luckyView))
     [\<lparr>xp = 433, yp = 489\<rparr>, \<lparr>xp = 428, yp = 495\<rparr>, \<lparr>xp = 438, yp = 495\<rparr>]"
    unfolding m by (simp add: boxEnv_def)
  have v: "level luckyView = 0" by (simp add: luckyView_def firstView_def)
  have h3: "0 \<le> level luckyView" "level luckyView < 2147483647" by (simp_all add: v)
  have r: "rng luckyView = [1 / 2, 1 / 2, 1 / 2] @ replicate 52 0"
    by (simp add: luckyView_def)
  have h4: "unitDraws (rng luckyView)"
    unfolding r by (simp add: unitDraws_def list_all_iff)
  have "goodDraw (sceneRect luckyView) (lastSpawnPos luckyView) 0"
    by (simp add: goodDraw_def boundedReal_def luckyView_def firstView_def)
  then have h5: "52 \<le> spare (goodDraw (sceneRect luckyView) (lastSpawnPos luckyView)) (rng luckyView)"
    unfolding r by (rule spare_append_replicate)
  from win_then_spikes_of_new_level [OF h1 h2 h3 h4 h5]
  have "\<exists>s'. updatePosition boxEnv luckyView = Some s' \<and> level s' = 1 \<and>
      updatePosition boxEnv (luckyView\<lparr>redTriangles := ?old\<rparr>) = Some s'"
    unfolding v by auto
  with h1 h2 v h4 h5 c show ?thesis by simp
qed

text \<open>
  Claim C2, amended.  As it is stated the claim fails: see the two views after the
  witness below.  What holds is this.  Let the player be at rest on a platform \<open>p\<close>: its
  bottom edge is on the top edge of \<open>p\<close>, and the landing test of the next tick holds for
  \<open>p\<close>; the vertical velocity is 0; none of the keys A, D and W is held; every platform
  that passes the landing test has its top edge where \<open>p\<close> has it; the top edge of \<open>p\<close> is
  not below the bottom of the scene; the player is between the left and the right wall;
  the player touches neither the goal nor a spike.  Then any number of ticks return and
  leave the player's position and the vertical velocity unchanged.
\<close>

theorem rest_is_stable:
  assumes "p \<in> set (platforms s)"
    and "yp (player s) + rect_h (playerRect env) = rect_top (sceneBoundingRect env p)"
    and "landsOn env (player s) (fall s) p"
    and "verticalVelocity s = 0"
    and "Key_A \<notin> keysPressed s" and "Key_D \<notin> keysPressed s" and "Key_W \<notin> keysPressed s"
    and "\<forall>q \<in> set (platforms s). landsOn env (player s) (fall s) q \<longrightarrow>
           rect_top (sceneBoundingRect env q) = rect_top (sceneBoundingRect env p)"
    and "rect_top (sceneBoundingRect env p) \<le> rect_bottom (sceneRect s)"
    and "rect_left (sceneRect s) \<le> xp (player s)"
    and "xp (player s) \<le> rect_right (sceneRect s) - rect_w (playerRect env)"
    and "\<not> reachesGoal env s"
    and "\<forall>t \<in> set (redTriangles s). \<not> collidesPolygon env (player s) t"
  shows "\<exists>s'. run env (replicate n Timeout) s = Some s' \<and>
           player s' = player s \<and> verticalVelocity s' = verticalVelocity s"
proof -
  have "atRest env s p"
    using assms unfolding atRest_def untouched_def by - (intro conjI; assumption)
  from atRest_ticks [OF this] obtain s' where
    "run env (replicate n Timeout) s = Some s'" "player s' = player s"
    "verticalVelocity s' = verticalVelocity s"
    by blast
  then show ?thesis by simp
qed

theorem rest_is_stable_witness:
  "\<lparr>rect_x = 460, rect_y = 390, rect_w = 80, rect_h = 10\<rparr> \<in> set (platforms restingView) \<and>
   yp (player restingView) + rect_h (playerRect boxEnv)
     = rect_top (sceneBoundingRect boxEnv \<lparr>rect_x = 460, rect_y = 390, rect_w = 80, rect_h = 10\<rparr>) \<and>
   landsOn boxEnv (player restingView) (fall restingView)
     \<lparr>rect_x = 460, rect_y = 390, rect_w = 80, rect_h = 10\<rparr> \<and>
   verticalVelocity restingView = 0 \<and> keysPressed restingView = {} \<and>
   \<not> reachesGoal boxEnv restingView \<and>
   player restingView = \<lparr>xp = 480, yp = 737 / 2\<rparr> \<and>
   (\<exists>s'. run boxEnv [Timeout, Timeout, Timeout] restingView = Some s' \<and>
      player s' = \<lparr>xp = 480, yp = 737 / 2\<rparr> \<and> verticalVelocity s' = 0)"
proof -
  let ?p = "\<lparr>rect_x = 460, rect_y = 390, rect_w = 80, rect_h = 10\<rparr>"
  have h1: "?p \<in> set (platforms restingView)"
    by (simp add: restingView_def secondView_def)
  have h2: "yp (player restingView) + rect_h (playerRect boxEnv) = rect_top (sceneBoundingRect boxEnv ?p)"
    by (simp add: tick_defs restingView_def)
  have h3: "landsOn boxEnv (player restingView) (fall restingView) ?p"
    by (simp add: tick_defs restingView_def secondView_def)
  have h4: "verticalVelocity restingView = 0" by (simp add: restingView_def secondView_def)
  have k: "keysPressed restingView = {}" by (simp add: restingView_def secondView_def)
  have h5: "Key_A \<notin> keysPressed restingView" "Key_D \<notin> keysPressed restingView"
    "Key_W \<notin> keysPressed restingView"
    by (simp_all add: k)
  have h6: "\<forall>q \<in> set (platforms restingView). landsOn boxEnv (player restingView) (fall restingView) q \<longrightarrow>
           rect_top (sceneBoundingRect boxEnv q) = rect_top (sceneBoundingRect boxEnv ?p)"
    by (simp add: tick_defs restingView_def secondView_def)
  have h7: "rect_top (sceneBoundingRect boxEnv ?p) \<le> rect_bottom (sceneRect restingView)"
    by (simp add: tick_defs restingView_def secondView_def)
  have h8: "rect_left (sceneRect restingView) \<le> xp (player restingView)"
    "xp (player restingView) \<le> rect_right (sceneRect restingView) - rect_w (playerRect boxEnv)"
    by (simp_all add: tick_defs restingView_def secondView_def)
  have h9: "\<not> reachesGoal boxEnv restingView"
    by (simp add: tick_defs restingView_def secondView_def)
  have h10: "\<forall>t \<in> set (redTriangles restingView). \<not> collidesPolygon boxEnv (player restingView) t"
    by (simp add: boxEnv_def restingView_def secondView_def)
  have v: "player restingView = \<lparr>xp = 480, yp = 737 / 2\<rparr>" by (simp add: restingView_def)
  have n: "replicate (Suc (Suc (Suc 0))) Timeout = [Timeout, Timeout, Timeout]" by simp
  from rest_is_stable [OF h1 h2 h3 h4 h5 h6 h7 h8 h9 h10, of "Suc (Suc (Suc 0))"]
  have "\<exists>s'. run boxEnv [Timeout, Timeout, Timeout] restingView = Some s' \<and>
      player s' = \<lparr>xp = 480, yp = 737 / 2\<rparr> \<and> verticalVelocity s' = 0"
    unfolding n v h4 .
  with h1 h2 h3 h4 k h9 v show ?thesis by simp
qed

text \<open>
  Claim C2 as it is stated, refuted on two views.  In both the player is at rest on the
  platform at height 390 (its bottom edge on the platform's top edge), with vertical
  velocity 0 and no horizontal key held, and does not stay as it is.  In the first no key
  is held at all, and a second platform, earlier in the list, has its top edge half a unit
  lower: the landing loop takes the earlier platform and the player sinks onto it.  In
  the second the jump key is held: the tick sets the vertical velocity to 20 and the next
  tick moves the player up.
\<close>

theorem rest_is_not_always_stable:
  "\<lparr>rect_x = 460, rect_y = 390, rect_w = 80, rect_h = 10\<rparr> \<in> set (platforms sinkingView) \<and>
   yp (player sinkingView) + rect_h (playerRect boxEnv)
     = rect_top (sceneBoundingRect boxEnv \<lparr>rect_x = 460, rect_y = 390, rect_w = 80, rect_h = 10\<rparr>) \<and>
   rect_left (sceneBoundingRect boxEnv \<lparr>rect_x = 460, rect_y = 390, rect_w = 80, rect_h = 10\<rparr>)
     < xp (player sinkingView) \<and>
   xp (player sinkingView) + rect_w (playerRect boxEnv)
     < rect_right (sceneBoundingRect boxEnv \<lparr>rect_x = 460, rect_y = 390, rect_w = 80, rect_h = 10\<rparr>) \<and>
   verticalVelocity sinkingView = 0 \<and> keysPressed sinkingView = {} \<and> deaths sinkingView < 10 \<and>
   player sinkingView = \<lparr>xp = 480, yp = 737 / 2\<rparr> \<and>
   map_option player (run boxEnv [Timeout] sinkingView) = Some \<lparr>xp = 480, yp = 369\<rparr> \<and>
   \<lparr>rect_x = 460, rect_y = 390, rect_w = 80, rect_h = 10\<rparr> \<in> set (platforms restingView) \<and>
   yp (player restingView) + rect_h (playerRect boxEnv)
     = rect_top (sceneBoundingRect boxEnv \<lparr>rect_x = 460, rect_y = 390, rect_w = 80, rect_h = 10\<rparr>) \<and>
   verticalVelocity restingView = 0 \<and>
   Key_A \<notin> {Key_W} \<and> Key_D \<notin> {Key_W} \<and>
   map_option verticalVelocity (run boxEnv [Timeout] (restingView\<lparr>keysPressed := {Key_W}\<rparr>)) = Some 20 \<and>
   map_option player (run boxEnv [Timeout, Timeout] (restingView\<lparr>keysPressed := {Key_W}\<rparr>))
     = Some \<lparr>xp = 480, yp = 699 / 2\<rparr>"
proof -
  have a: "updatePosition boxEnv sinkingView = Some (sinkingView\<lparr>player := \<lparr>xp = 480, yp = 369\<rparr>\<rparr>)"
    by (simp add: tick_defs sinkingView_def firstView_def)
  have b: "updatePosition boxEnv (restingView\<lparr>keysPressed := {Key_W}\<rparr>)
             = Some (restingView\<lparr>keysPressed := {Key_W}, verticalVelocity := 20\<rparr>)"
    by (simp add: tick_defs restingView_def secondView_def)
  have c: "updatePosition boxEnv (restingView\<lparr>keysPressed := {Key_W}, verticalVelocity := 20\<rparr>)
             = Some (restingView\<lparr>keysPressed := {Key_W}, verticalVelocity := 19,
                                player := \<lparr>xp = 480, yp = 699 / 2\<rparr>\<rparr>)"
    by (simp add: tick_defs restingView_def secondView_def)
  have d: "yp (player sinkingView) + rect_h (playerRect boxEnv)
     = rect_top (sceneBoundingRect boxEnv \<lparr>rect_x = 460, rect_y = 390, rect_w = 80, rect_h = 10\<rparr>)"
    "rect_left (sceneBoundingRect boxEnv \<lparr>rect_x = 460, rect_y = 390, rect_w = 80, rect_h = 10\<rparr>)
     < xp (player sinkingView)"
    "xp (player sinkingView) + rect_w (playerRect boxEnv)
     < rect_right (sceneBoundingRect boxEnv \<lparr>rect_x = 460, rect_y = 390, rect_w = 80, rect_h = 10\<rparr>)"
    "yp (player restingView) + rect_h (playerRect boxEnv)
     = rect_top (sceneBoundingRect boxEnv \<lparr>rect_x = 460, rect_y = 390, rect_w = 80, rect_h = 10\<rparr>)"
    by (simp_all add: tick_defs sinkingView_def restingView_def)
  have e: "\<lparr>rect_x = 460, rect_y = 390, rect_w = 80, rect_h = 10\<rparr> \<in> set (platforms sinkingView)"
    "verticalVelocity sinkingView = 0" "keysPressed sinkingView = {}" "deaths sinkingView < 10"
    "player sinkingView = \<lparr>xp = 480, yp = 737 / 2\<rparr>"
    "\<lparr>rect_x = 460, rect_y = 390, rect_w = 80, rect_h = 10\<rparr> \<in> set (platforms restingView)"
    "verticalVelocity restingView = 0"
    by (simp_all add: sinkingView_def firstView_def restingView_def secondView_def)
  have f: "Key_A \<notin> {Key_W}" "Key_D \<notin> {Key_W}"
    by (simp_all add: Key_A_def Key_D_def Key_W_def)
  show ?thesis
    using d e f by (simp add: a b c)
qed

text \<open>
  Claim C9.  In a tick of the running game with the jump key held and the player on the
  ground (after the platforms and the floor), the movement sets the vertical velocity to
  20 and gives the player the grounded height, which is the height of the floor or the
  snapped height on a platform; every tick that returns leaves the velocity at 20.  When
  the player then touches neither the goal nor a spike, the tick returns this position,
  and the movement of the following tick has velocity 19 and a height 19 less: the jump
  shows one tick later.
\<close>

theorem jump_shows_in_next_tick:
  assumes "deaths s < 10" and "Key_W \<in> keysPressed s" and "onGround (grounded env s)"
  shows "verticalVelocity (movePlayer env s) = 20 \<and>
         yp (player (movePlayer env s)) = yp (nextPos (grounded env s)) \<and>
         (yp (nextPos (grounded env s)) = rect_bottom (sceneRect s) - rect_h (playerRect env) \<or>
          (\<exists>p \<in> set (platforms s).
             yp (nextPos (grounded env s)) = rect_top (sceneBoundingRect env p) - rect_h (playerRect env))) \<and>
         (\<forall>s'. updatePosition env s = Some s' \<longrightarrow> verticalVelocity s' = 20) \<and>
         (untouched env (movePlayer env s) \<longrightarrow>
            (\<exists>s1. updatePosition env s = Some s1 \<and> player s1 = player (movePlayer env s) \<and>
               verticalVelocity (movePlayer env s1) = 19 \<and>
               yp (player (movePlayer env s1)) = yp (player s1) - 19))"
proof -
  let ?m = "movePlayer env s"
  have vv: "verticalVelocity ?m = 20"
    using assms(2,3) by (simp add: movePlayer_def resolve_def jump_def keepInside_def)
  have y: "yp (player ?m) = yp (nextPos (grounded env s))"
    by (simp add: movePlayer_def resolve_def jump_def keepInside_def)
  have pos: "yp (nextPos (grounded env s)) = rect_bottom (sceneRect s) - rect_h (playerRect env) \<or>
          (\<exists>p \<in> set (platforms s).
             yp (nextPos (grounded env s)) = rect_top (sceneBoundingRect env p) - rect_h (playerRect env))"
  proof (cases "hitsFloor env (sceneRect s) (landing env (currentPos s) (platforms s) (fall s))")
    case True
    then show ?thesis by (simp add: grounded_def floorClamp_def)
  next
    case False
    then have g: "grounded env s = landing env (currentPos s) (platforms s) (fall s)"
      by (simp add: grounded_def floorClamp_def)
    have "\<exists>p \<in> set (platforms s). landsOn env (currentPos s) (fall s) p"
    proof (rule ccontr)
      assume "\<not> ?thesis"
      then have "landing env (currentPos s) (platforms s) (fall s) = fall s"
        by (simp add: landing_none)
      with assms(3) g show False by (simp add: fall_def Let_def)
    qed
    from landing_some [OF this] g show ?thesis
      by (auto simp: snapTo_def)
  qed
  have all: "verticalVelocity s' = 20" if "updatePosition env s = Some s'" for s'
    using updatePosition_velocity [OF assms(1) that] vv by simp
  have next_tick: "\<exists>s1. updatePosition env s = Some s1 \<and> player s1 = player ?m \<and>
               verticalVelocity (movePlayer env s1) = 19 \<and>
               yp (player (movePlayer env s1)) = yp (player s1) - 19"
    if "untouched env ?m"
  proof -
    define s1 where "s1 = updateHUD ?m"
    have tick: "updatePosition env s = Some s1"
      unfolding s1_def using assms(1) that by (rule updatePosition_untouched)
    have s1: "player s1 = player ?m" "verticalVelocity s1 = 20" "sceneRect s1 = sceneRect s"
      by (simp_all add: s1_def vv)
    have below: "yp (player s1) \<le> rect_bottom (sceneRect s1) - rect_h (playerRect env)"
      by (simp add: s1 y grounded_def floorClamp_yp)
    have f: "velocity (fall s1) = 19" "yp (nextPos (fall s1)) = yp (player s1) - 19"
      by (simp_all add: fall_def Let_def s1(2) wrap32_def)
    have a: "\<forall>p \<in> set (platforms s1). \<not> landsOn env (currentPos s1) (fall s1) p"
      by (simp add: f landsOn_def Let_def)
    have b: "\<not> hitsFloor env (sceneRect s1) (fall s1)"
      using below by (simp add: f hitsFloor_def)
    have "verticalVelocity (movePlayer env s1) = 19"
      "yp (player (movePlayer env s1)) = yp (player s1) - 19"
      using movePlayer_airborne(2,3) [OF a b] by (simp_all add: f)
    with tick s1(1) show ?thesis by blast
  qed
  show ?thesis
  proof (intro conjI allI impI)
    show "verticalVelocity ?m = 20" by (fact vv)
    show "yp (player ?m) = yp (nextPos (grounded env s))" by (fact y)
    show "yp (nextPos (grounded env s)) = rect_bottom (sceneRect s) - rect_h (playerRect env) \<or>
          (\<exists>p \<in> set (platforms s).
             yp (nextPos (grounded env s)) = rect_top (sceneBoundingRect env p) - rect_h (playerRect env))"
      by (fact pos)
    show "verticalVelocity s' = 20" if "updatePosition env s = Some s'" for s'
      using that by (rule all)
    show "\<exists>s1. updatePosition env s = Some s1 \<and> player s1 = player ?m \<and>
               verticalVelocity (movePlayer env s1) = 19 \<and>
               yp (player (movePlayer env s1)) = yp (player s1) - 19"
      if "untouched env ?m"
      using that by (rule next_tick)
  qed
qed


theorem jump_shows_in_next_tick_witness:
  "deaths jumpView < 10 \<and> Key_W \<in> keysPressed jumpView \<and>
   onGround (grounded boxEnv jumpView) \<and>
   untouched boxEnv (movePlayer boxEnv jumpView) \<and>
   player jumpView = \<lparr>xp = 500, yp = 480\<rparr> \<and>
   verticalVelocity (movePlayer boxEnv jumpView) = 20 \<and>
   yp (player (movePlayer boxEnv jumpView)) = 479 \<and>
   (\<exists>s1. updatePosition boxEnv jumpView = Some s1 \<and> player s1 = \<lparr>xp = 500, yp = 479\<rparr> \<and>
      verticalVelocity (movePlayer boxEnv s1) = 19 \<and>
      yp (player (movePlayer boxEnv s1)) = 460)"
proof -
  have h1: "deaths jumpView < 10" by (simp add: jumpView_def firstView_def)
  have h2: "Key_W \<in> keysPressed jumpView" by (simp add: jumpView_def)
  have h3: "onGround (grounded boxEnv jumpView)"
    by (simp add: tick_defs jumpView_def firstView_def)
  have m: "movePlayer boxEnv jumpView
             = jumpView\<lparr>player := \<lparr>xp = 500, yp = 479\<rparr>, verticalVelocity := 20\<rparr>"
    by (simp add: tick_defs jumpView_def firstView_def)
  have g: "yp (nextPos (grounded boxEnv jumpView)) = 479"
    by (simp add: tick_defs jumpView_def firstView_def)
  have u: "untouched boxEnv (movePlayer boxEnv jumpView)"
    unfolding m by (simp add: tick_defs jumpView_def firstView_def)
  have v: "player jumpView = \<lparr>xp = 500, yp = 480\<rparr>" by (simp add: jumpView_def firstView_def)
  from jump_shows_in_next_tick [OF h1 h2 h3] u
  have "verticalVelocity (movePlayer boxEnv jumpView) = 20"
    and "yp (player (movePlayer boxEnv jumpView)) = 479"
    and "\<exists>s1. updatePosition boxEnv jumpView = Some s1 \<and>
           player s1 = player (movePlayer boxEnv jumpView) \<and>
           verticalVelocity (movePlayer boxEnv s1) = 19 \<and>
           yp (player (movePlayer boxEnv s1)) = yp (player s1) - 19"
    unfolding g by blast+
  then have "verticalVelocity (movePlayer boxEnv jumpView) = 20"
    and "yp (player (movePlayer boxEnv jumpView)) = 479"
    and "\<exists>s1. updatePosition boxEnv jumpView = Some s1 \<and> player s1 = \<lparr>xp = 500, yp = 479\<rparr> \<and>
           verticalVelocity (movePlayer boxEnv s1) = 19 \<and>
           yp (player (movePlayer boxEnv s1)) = 460"
    by (auto simp: m)
  with h1 h2 h3 u v show ?thesis by simp
qed

text \<open>
  Claim C6.  Let a tick of the running game bring the deaths to 10.  Then the game is
  over and the display reads \<^verbatim>\<open>Lives left: 0\<close>; and after any sequence of timer ticks, key
  events and resize events the game is still over, with the same deaths, level, player
  position, vertical velocity and display texts.  Once the timer has ticked, the message
  of the end is shown, and a tick then changes nothing: it only shows the message when it
  is not shown yet.
\<close>

theorem game_over_is_terminal:
  assumes "deaths s0 < 10" and "updatePosition env s0 = Some s" and "deaths s = 10"
  shows "gameOver s \<and> livesText s = ''Lives left: 0'' \<and>
         (\<forall>es. \<exists>s'. run env es s = Some s' \<and> gameOver s' \<and> deaths s' = deaths s \<and>
            level s' = level s \<and> player s' = player s \<and>
            verticalVelocity s' = verticalVelocity s \<and>
            livesText s' = ''Lives left: 0'' \<and> levelsText s' = levelsText s \<and>
            (Timeout \<in> set es \<longrightarrow> gameOverText s' \<noteq> None) \<and>
            updatePosition env s' = Some (if gameOverText s' = None then showGameOver s' else s'))"
proof -
  have over: "gameOver s" using assms(3) by (simp add: gameOver_def)
  from assms(1,2) obtain s1 where "s = updateHUD (checkSpikes env (redTriangles s1) s1)"
    by (auto simp: updatePosition_playing)
  then have "livesText s = ''Lives left: '' @ number (10 - deaths s)"
    by (simp add: updateHUD_def)
  then have hud: "livesText s = ''Lives left: 0''"
    by (simp add: assms(3) number_0)
  have "\<exists>s'. run env es s = Some s' \<and> gameOver s' \<and> deaths s' = deaths s \<and>
            level s' = level s \<and> player s' = player s \<and>
            verticalVelocity s' = verticalVelocity s \<and>
            livesText s' = ''Lives left: 0'' \<and> levelsText s' = levelsText s \<and>
            (Timeout \<in> set es \<longrightarrow> gameOverText s' \<noteq> None) \<and>
            updatePosition env s' = Some (if gameOverText s' = None then showGameOver s' else s')" for es
  proof -
    from gameOver_run [OF over, of env es] obtain s' where
      s': "run env es s = Some s'" "gameOver s'" "deaths s' = deaths s" "level s' = level s"
        "player s' = player s" "verticalVelocity s' = verticalVelocity s"
        "livesText s' = livesText s" "levelsText s' = levelsText s"
        "Timeout \<in> set es \<or> gameOverText s \<noteq> None \<longrightarrow> gameOverText s' \<noteq> None"
      by blast
    have "updatePosition env s' = Some (if gameOverText s' = None then showGameOver s' else s')"
      using s'(2) by (simp add: updatePosition_def gameOver_def)
    with s' hud show ?thesis by (intro exI [of _ s']) simp
  qed
  with over hud show ?thesis by blast
qed

theorem game_over_is_terminal_witness:
  "deaths lastLifeView < 10 \<and>
   updatePosition boxEnv lastLifeView = Some deadView \<and>
   deaths deadView = 10 \<and> gameOver deadView \<and> livesText deadView = ''Lives left: 0'' \<and>
   (\<exists>s'. run boxEnv [Timeout, KeyPress Key_W, Timeout, Resize 800 600, KeyPress Key_D, Timeout]
            deadView = Some s' \<and>
      gameOver s' \<and> deaths s' = 10 \<and> level s' = 0 \<and> player s' = \<lparr>xp = 500, yp = 480\<rparr> \<and>
      verticalVelocity s' = 0 \<and> livesText s' = ''Lives left: 0'' \<and> gameOverText s' \<noteq> None)"
proof -
  let ?es = "[Timeout, KeyPress Key_W, Timeout, Resize 800 600, KeyPress Key_D, Timeout]"
  have h1: "deaths lastLifeView < 10" by (simp add: lastLifeView_def)
  have h2: "updatePosition boxEnv lastLifeView = Some deadView"
    by (simp add: tick_defs lastLifeView_def deadView_def spikedView_def firstView_def)
  have h3: "deaths deadView = 10" by (simp add: deadView_def)
  have v: "level deadView = 0" "player deadView = \<lparr>xp = 500, yp = 480\<rparr>"
    "verticalVelocity deadView = 0"
    by (simp_all add: deadView_def spikedView_def firstView_def)
  from game_over_is_terminal [OF h1 h2 h3]
  have "gameOver deadView" and "livesText deadView = ''Lives left: 0''"
    and "\<exists>s'. run boxEnv ?es deadView = Some s' \<and> gameOver s' \<and> deaths s' = deaths deadView \<and>
            level s' = level deadView \<and> player s' = player deadView \<and>
            verticalVelocity s' = verticalVelocity deadView \<and>
            livesText s' = ''Lives left: 0'' \<and> levelsText s' = levelsText deadView \<and>
            (Timeout \<in> set ?es \<longrightarrow> gameOverText s' \<noteq> None) \<and>
            updatePosition boxEnv s' = Some (if gameOverText s' = None then showGameOver s' else s')"
    by blast+
  then have "gameOver deadView" and "livesText deadView = ''Lives left: 0''"
    and "\<exists>s'. run boxEnv ?es deadView = Some s' \<and>
      gameOver s' \<and> deaths s' = 10 \<and> level s' = 0 \<and> player s' = \<lparr>xp = 500, yp = 480\<rparr> \<and>
      verticalVelocity s' = 0 \<and> livesText s' = ''Lives left: 0'' \<and> gameOverText s' \<noteq> None"
    unfolding h3 v by auto
  with h1 h2 h3 show ?thesis by simp
qed

end
